theory Spec2Isabelle
  imports Complex_Main
begin

section \<open>Values, errors and the interpreter state\<close>

text \<open>
  The program is \<^verbatim>\<open>cyp/models/rnn.py\<close>: the classes \<^verbatim>\<open>RNNModel\<close> and \<^verbatim>\<open>RNNet\<close>.
  Everything the two classes do is a sequence of calls into Python and PyTorch, so the
  embedding has two layers: the library operations the source calls (each modelled by its
  documented behaviour), and the source's own functions, translated line by line on top of
  them. A tensor element is a real number. The initialisers round as the library does (see
  the section on floating-point numbers): there the precision decides a statement. The
  arithmetic of the layers is taken exact; the statements about \<open>forward\<close> are about shapes,
  devices, storages and the order of the operations.

  Exceptions are values. \<open>TorchError\<close> stands for every exception raised inside a PyTorch
  call (RuntimeError, IndexError or ValueError of the library); the other constructors are
  the exceptions the Python code of the source raises itself.
\<close>

datatype error =
    AttributeError
  | IndexError
  | TypeError
  | UnboundLocalError
  | ValueError
  | ZeroDivisionError
  | TorchError

datatype device = CPU | CUDA nat

text \<open>
  A tensor is a view of a storage: the storage's index in the heap, an offset, sizes and
  strides, and the device it lives on. Two tensors with the same \<open>storage\<close> share memory.
\<close>

record tensor =
  storage :: nat
  offset :: nat
  shape :: "nat list"
  strides :: "nat list"
  device :: device

text \<open>
  The interpreter state: tensor storages, Python list objects (by address, with the next
  free address), the random stream with the position of the generator, and the process's
  current CUDA device.
\<close>

record world =
  heap :: "real list list"
  pylists :: "nat \<Rightarrow> int list"
  pyfresh :: nat
  draws :: "nat \<Rightarrow> real"
  rng_pos :: nat
  cuda_current :: nat

type_synonym 'a action = "world \<Rightarrow> (error + 'a) \<times> world"

definition ret :: "'a \<Rightarrow> 'a action" where
  "ret v w = (Inr v, w)"

definition raise :: "error \<Rightarrow> 'a action" where
  "raise e w = (Inl e, w)"

definition seq :: "'a action \<Rightarrow> ('a \<Rightarrow> 'b action) \<Rightarrow> 'b action" where
  "seq m f w = (case m w of (Inl e, w') \<Rightarrow> (Inl e, w') | (Inr v, w') \<Rightarrow> f v w')"

text \<open>A statement list run over a list of loop values, in order, stopping at the first exception.\<close>

fun for_each :: "'a list \<Rightarrow> ('a \<Rightarrow> 's \<Rightarrow> 's action) \<Rightarrow> 's \<Rightarrow> 's action" where
  "for_each [] body s = ret s"
| "for_each (i # is) body s = seq (body i s) (for_each is body)"

text \<open>A list comprehension whose element expression may raise.\<close>

fun comprehension :: "'a list \<Rightarrow> ('a \<Rightarrow> 'b action) \<Rightarrow> 'b list action" where
  "comprehension [] f = ret []"
| "comprehension (i # is) f = seq (f i) (\<lambda>v. seq (comprehension is f) (\<lambda>vs. ret (v # vs)))"

section \<open>Python lists\<close>

definition list_new :: "int list \<Rightarrow> nat action" where
  "list_new xs w = (Inr (pyfresh w), w\<lparr>pylists := (pylists w)(pyfresh w := xs), pyfresh := Suc (pyfresh w)\<rparr>)"

definition list_get :: "nat \<Rightarrow> int list action" where
  "list_get a w = (Inr (pylists w a), w)"

text \<open>\<^verbatim>\<open>xs.insert(0, v)\<close>: in place.\<close>

definition list_insert0 :: "nat \<Rightarrow> int \<Rightarrow> unit action" where
  "list_insert0 a v w = (Inr (), w\<lparr>pylists := (pylists w)(a := v # pylists w a)\<rparr>)"

text \<open>\<^verbatim>\<open>xs[0] += v\<close>: in place; IndexError on an empty list.\<close>

definition list_add0 :: "nat \<Rightarrow> int \<Rightarrow> unit action" where
  "list_add0 a v w =
     (case pylists w a of
        [] \<Rightarrow> (Inl IndexError, w)
      | x # xs \<Rightarrow> (Inr (), w\<lparr>pylists := (pylists w)(a := (x + v) # xs)\<rparr>))"

text \<open>The f-string rendering of an integer.\<close>

fun str_nat :: "nat \<Rightarrow> string" where
  "str_nat n =
     (if n < 10 then [''0123456789'' ! n]
      else str_nat (n div 10) @ [''0123456789'' ! (n mod 10)])"

declare str_nat.simps [simp del]

definition str_int :: "int \<Rightarrow> string" where
  "str_int i = (if i < 0 then ''-'' @ str_nat (nat (- i)) else str_nat (nat i))"

section \<open>PyTorch: tensors as strided views\<close>

definition numel :: "tensor \<Rightarrow> nat" where
  "numel t = prod_list (shape t)"

text \<open>The strides of a freshly allocated (contiguous, row-major) tensor.\<close>

fun cstrides :: "nat list \<Rightarrow> nat list" where
  "cstrides [] = []"
| "cstrides (n # ns) = prod_list (map (max 1) ns) # cstrides ns"

text \<open>The storage positions of a view's elements, relative to its offset, in row-major order.\<close>

fun offsets :: "nat list \<Rightarrow> nat list \<Rightarrow> nat list" where
  "offsets [] ss = [0]"
| "offsets (n # ns) [] = concat (map (\<lambda>i. offsets ns []) [0..<n])"
| "offsets (n # ns) (s # ss) = concat (map (\<lambda>i. map (\<lambda>k. i * s + k) (offsets ns ss)) [0..<n])"

text \<open>The elements of a tensor, read through its view, in row-major order.\<close>

definition tvals :: "real list list \<Rightarrow> tensor \<Rightarrow> real list" where
  "tvals H t = map (\<lambda>k. (H ! storage t) ! (offset t + k)) (offsets (shape t) (strides t))"

text \<open>An in-place write of the elements of a view, in row-major order.\<close>

definition write_vals :: "tensor \<Rightarrow> real list \<Rightarrow> real list list \<Rightarrow> real list list" where
  "write_vals t vals H =
     H[storage t := fold (\<lambda>(k, v) st. st[offset t + k := v])
                         (zip (offsets (shape t) (strides t)) vals) (H ! storage t)]"

text \<open>Allocation of a new tensor with the given elements: a new storage at the end of the heap.\<close>

definition new_tensor :: "nat list \<Rightarrow> device \<Rightarrow> real list \<Rightarrow> tensor action" where
  "new_tensor sh d vals w =
     (Inr \<lparr>storage = length (heap w), offset = 0, shape = sh, strides = cstrides sh, device = d\<rparr>,
      w\<lparr>heap := heap w @ [vals]\<rparr>)"

text \<open>\<^verbatim>\<open>torch.zeros(*sizes)\<close>: on the default device, the CPU.\<close>

definition torch_zeros :: "int list \<Rightarrow> tensor action" where
  "torch_zeros sizes =
     (if list_ex (\<lambda>n. n < 0) sizes then raise TorchError
      else new_tensor (map nat sizes) CPU (replicate (prod_list (map nat sizes)) 0))"

definition is_cuda :: "tensor \<Rightarrow> bool" where
  "is_cuda t = (case device t of CPU \<Rightarrow> False | CUDA k \<Rightarrow> True)"

text \<open>
  \<^verbatim>\<open>t.cuda()\<close>: the tensor itself when it already is on the current CUDA device, else a
  copy in memory of the current CUDA device.
\<close>

definition cuda :: "tensor \<Rightarrow> tensor action" where
  "cuda t w =
     (if device t = CUDA (cuda_current w) then ret t w
      else new_tensor (shape t) (CUDA (cuda_current w)) (tvals (heap w) t) w)"

text \<open>\<^verbatim>\<open>x.permute(0, 2, 1, 3)\<close>: a view; sizes and strides are permuted.\<close>

definition permute_0213 :: "tensor \<Rightarrow> tensor action" where
  "permute_0213 t =
     (if length (shape t) = 4 \<and> length (strides t) = 4
      then ret (t\<lparr>shape := [shape t ! 0, shape t ! 2, shape t ! 1, shape t ! 3],
                  strides := [strides t ! 0, strides t ! 2, strides t ! 1, strides t ! 3]\<rparr>)
      else raise TorchError)"

text \<open>
  \<^verbatim>\<open>t.is_contiguous()\<close>: walking the dimensions from the last, every dimension of size
  other than 1 has the stride a row-major layout gives it.
\<close>

fun contiguous_from :: "nat \<Rightarrow> (nat \<times> nat) list \<Rightarrow> bool" where
  "contiguous_from z [] = True"
| "contiguous_from z ((n, s) # r) =
     (if n = 1 then contiguous_from z r
      else if s = z then contiguous_from (z * n) r
      else False)"

definition is_contiguous :: "tensor \<Rightarrow> bool" where
  "is_contiguous t = (numel t = 0 \<or> contiguous_from 1 (rev (zip (shape t) (strides t))))"

text \<open>\<^verbatim>\<open>t.contiguous()\<close>: the tensor itself when it is contiguous, else a row-major copy.\<close>

definition contiguous :: "tensor \<Rightarrow> tensor action" where
  "contiguous t w =
     (if is_contiguous t then ret t w
      else new_tensor (shape t) (device t) (tvals (heap w) t) w)"

text \<open>
  \<^verbatim>\<open>t.view(*sizes)\<close> of a contiguous tensor (the source calls it on the result of
  \<^verbatim>\<open>contiguous()\<close> only): the same storage under new sizes.
\<close>

definition view :: "tensor \<Rightarrow> nat list \<Rightarrow> tensor action" where
  "view t sizes =
     (if is_contiguous t \<and> prod_list sizes = numel t
      then ret (t\<lparr>shape := sizes, strides := cstrides sizes\<rparr>)
      else raise TorchError)"

text \<open>\<^verbatim>\<open>x[:, i, :]\<close> of a 3-dimensional tensor: a view without the middle dimension.\<close>

definition select_1 :: "tensor \<Rightarrow> nat \<Rightarrow> tensor action" where
  "select_1 t i =
     (if length (shape t) = 3 \<and> length (strides t) = 3 \<and> i < shape t ! 1
      then ret (t\<lparr>offset := offset t + i * (strides t ! 1),
                  shape := [shape t ! 0, shape t ! 2],
                  strides := [strides t ! 0, strides t ! 2]\<rparr>)
      else raise TorchError)"

text \<open>\<^verbatim>\<open>t.unsqueeze(1)\<close>: a view with a dimension of size 1 inserted at position 1.\<close>

definition unsqueeze_1 :: "tensor \<Rightarrow> tensor action" where
  "unsqueeze_1 t =
     (case (shape t, strides t) of
        (n # ns, s # ss) \<Rightarrow>
          ret (t\<lparr>shape := n # 1 # ns,
                 strides := s # (case (ns, ss) of (m # ms, r # rs) \<Rightarrow> m * r | _ \<Rightarrow> 1) # ss\<rparr>)
      | _ \<Rightarrow> raise TorchError)"

text \<open>\<^verbatim>\<open>t.squeeze(0)\<close>: a view without dimension 0 when its size is 1, else the tensor itself.\<close>

definition squeeze_0 :: "tensor \<Rightarrow> tensor" where
  "squeeze_0 t =
     (case (shape t, strides t) of
        (n # ns, s # ss) \<Rightarrow> if n = 1 then t\<lparr>shape := ns, strides := ss\<rparr> else t
      | _ \<Rightarrow> t)"

text \<open>
  \<^verbatim>\<open>torch.cat((a, b), dim=1)\<close>: a new tensor; the operands agree in every dimension but
  dimension 1 and live on one device. (An operand of shape \<open>[0]\<close> is skipped, as the library
  documents.)
\<close>

definition chunks :: "nat \<Rightarrow> nat \<Rightarrow> 'a list \<Rightarrow> 'a list list" where
  "chunks n k xs = map (\<lambda>i. take k (drop (i * k) xs)) [0..<n]"

definition cat_1 :: "tensor \<Rightarrow> tensor \<Rightarrow> tensor action" where
  "cat_1 a b w =
     (if shape a = [0] \<and> shape b = [0] then new_tensor [0] (device a) [] w
      else if shape b = [0] then
        (if length (shape a) < 2 then raise TorchError w
         else new_tensor (shape a) (device a) (tvals (heap w) a) w)
      else if shape a = [0] then
        (if length (shape b) < 2 then raise TorchError w
         else new_tensor (shape b) (device b) (tvals (heap w) b) w)
      else if length (shape a) < 2 \<or> length (shape b) \<noteq> length (shape a)
              \<or> shape a ! 0 \<noteq> shape b ! 0 \<or> drop 2 (shape a) \<noteq> drop 2 (shape b)
              \<or> device a \<noteq> device b
      then raise TorchError w
      else new_tensor (shape a ! 0 # (shape a ! 1 + shape b ! 1) # drop 2 (shape a)) (device a)
             (concat (map2 (@)
                (chunks (shape a ! 0) (prod_list (tl (shape a))) (tvals (heap w) a))
                (chunks (shape b ! 0) (prod_list (tl (shape b))) (tvals (heap w) b)))) w)"

section \<open>Floating-point numbers\<close>

text \<open>
  The initialisers are where the precision of the numbers decides a statement, so there the
  rounding is written out. A floating-point number is a real number here; \<open>rnd p emin\<close> is
  rounding to the nearest number with a significand of \<open>p\<close> bits and an exponent of at least
  \<open>emin\<close> (below it the quantum stays that of \<open>emin\<close>: the subnormal numbers), ties to the even
  significand. The formats have a largest number too; no number rounded in this program
  exceeds 5 in magnitude, and overflow is left out.
\<close>

definition round_even :: "real \<Rightarrow> int" where
  "round_even r =
     (let n = \<lfloor>r\<rfloor> in
      if r - of_int n < 1 / 2 then n
      else if 1 / 2 < r - of_int n then n + 1
      else if even n then n else n + 1)"

text \<open>The exponent of a number other than 0: \<open>2 powi expo x \<le> \<bar>x\<bar> < 2 powi (expo x + 1)\<close>.\<close>

definition expo :: "real \<Rightarrow> int" where
  "expo x = \<lfloor>log 2 \<bar>x\<bar>\<rfloor>"

definition rnd :: "nat \<Rightarrow> int \<Rightarrow> real \<Rightarrow> real" where
  "rnd p emin x =
     (if x = 0 then 0
      else (let q = 2 powi (max (expo x) emin - int p + 1)
            in of_int (round_even (x / q)) * q))"

text \<open>
  \<open>f32\<close>: the element type of the parameters (\<^verbatim>\<open>torch.float32\<close>, IEEE binary32). \<open>f64\<close>: a
  Python \<^verbatim>\<open>float\<close> (IEEE binary64); Python's \<^verbatim>\<open>/\<close>, \<^verbatim>\<open>*\<close> and \<^verbatim>\<open>math.sqrt\<close> return the exact
  result rounded once.
\<close>

definition f32 :: "real \<Rightarrow> real" where
  "f32 = rnd 24 (- 126)"

definition f64 :: "real \<Rightarrow> real" where
  "f64 = rnd 53 (- 1022)"

section \<open>PyTorch: initialisers\<close>

text \<open>
  The element that the kernel of \<^verbatim>\<open>uniform_\<close> stores for the draw \<open>u\<close> of the generator
  (a number of the unit interval) and the bounds \<open>lo\<close> and \<open>hi\<close>: \<^verbatim>\<open>u * (hi - lo) + lo\<close> in
  float32 arithmetic, every operation rounded.
\<close>

definition uniform_value :: "real \<Rightarrow> real \<Rightarrow> real \<Rightarrow> real" where
  "uniform_value lo hi u = f32 (f32 (u * f32 (hi - lo)) + lo)"

text \<open>
  \<^verbatim>\<open>nn.init.uniform_(t, a, b)\<close> on a float32 tensor: in place; the bounds, Python floats, are
  cast to float32; one draw of the generator per element.
\<close>

definition init_uniform :: "tensor \<Rightarrow> real \<Rightarrow> real \<Rightarrow> unit action" where
  "init_uniform t a b w =
     (if b < a then (Inl TorchError, w)
      else (Inr (),
            w\<lparr>heap := write_vals t (map (\<lambda>j. uniform_value (f32 a) (f32 b) (draws w (rng_pos w + j)))
                                       [0..<numel t]) (heap w),
              rng_pos := rng_pos w + numel t\<rparr>))"

text \<open>\<^verbatim>\<open>nn.init.constant_(t, v)\<close>: in place, the value cast to float32.\<close>

definition init_constant :: "tensor \<Rightarrow> real \<Rightarrow> unit action" where
  "init_constant t v w = (Inr (), w\<lparr>heap := write_vals t (replicate (numel t) (f32 v)) (heap w)\<rparr>)"

text \<open>
  \<^verbatim>\<open>nn.init.kaiming_uniform_(t)\<close> with the library's defaults (fan-in mode, gain
  \<^verbatim>\<open>math.sqrt(2.0)\<close>): \<^verbatim>\<open>std = gain / math.sqrt(fan)\<close>, \<^verbatim>\<open>bound = math.sqrt(3.0) * std\<close>, then
  \<^verbatim>\<open>uniform_(-bound, bound)\<close>; nothing is done to a tensor without elements.
\<close>

definition init_kaiming_uniform :: "tensor \<Rightarrow> unit action" where
  "init_kaiming_uniform t =
     (if numel t = 0 then ret ()
      else if length (shape t) < 2 then raise TorchError
      else (let fan_in = prod_list (tl (shape t));
                gain = f64 (sqrt 2);
                std = f64 (gain / f64 (sqrt (real fan_in)));
                bound = f64 (f64 (sqrt 3) * std)
            in init_uniform t (- bound) bound))"

text \<open>
  A parameter as the library's module constructors make it: allocated on the CPU and filled
  by the module's default initialiser, uniform between plus and minus \<open>k\<close>. (The constructors
  below pass the exact \<open>1 / sqrt n\<close> for \<open>k\<close>; \<^verbatim>\<open>RNNet.__init__\<close> overwrites these values by
  \<^verbatim>\<open>initialize_weights\<close> before it returns.)
\<close>

definition new_parameter :: "nat list \<Rightarrow> real \<Rightarrow> tensor action" where
  "new_parameter sh k =
     seq (new_tensor sh CPU (replicate (prod_list sh) 0)) (\<lambda>t.
     seq (init_uniform t (- k) k) (\<lambda>u. ret t))"

section \<open>PyTorch: the modules the network is built from\<close>

subsection \<open>\<^verbatim>\<open>nn.Dropout\<close>\<close>

record Dropout =
  drop_p :: real
  training :: bool

definition Dropout_init :: "real \<Rightarrow> Dropout action" where
  "Dropout_init pr =
     (if pr < 0 \<or> 1 < pr then raise TorchError
      else ret \<lparr>drop_p = pr, training = True\<rparr>)"

text \<open>
  Not in place. Outside training, at rate 0 and on a tensor without elements the input
  itself is returned; at rate 1 a tensor of zeros; otherwise every element is kept with
  probability \<open>1 - p\<close> (one draw each) and the kept ones are divided by \<open>1 - p\<close>.
\<close>

definition Dropout_forward :: "Dropout \<Rightarrow> tensor \<Rightarrow> tensor action" where
  "Dropout_forward m t w =
     (if \<not> training m \<or> drop_p m = 0 \<or> numel t = 0 then ret t w
      else if drop_p m = 1 then new_tensor (shape t) (device t) (replicate (numel t) 0) w
      else new_tensor (shape t) (device t)
             (map2 (\<lambda>v j. if draws w (rng_pos w + j) < 1 - drop_p m then v / (1 - drop_p m) else 0)
                   (tvals (heap w) t) [0..<numel t])
             (w\<lparr>rng_pos := rng_pos w + numel t\<rparr>))"

subsection \<open>\<^verbatim>\<open>nn.Linear\<close>\<close>

record Linear =
  in_features :: nat
  out_features :: nat
  weight :: tensor
  bias :: tensor

definition Linear_init :: "int \<Rightarrow> int \<Rightarrow> Linear action" where
  "Linear_init n_in n_out =
     (if n_in < 0 \<or> n_out < 0 then raise TorchError
      else (let k = (if n_in = 0 then 0 else 1 / sqrt (real_of_int n_in)) in
        seq (new_parameter [nat n_out, nat n_in] k) (\<lambda>wt.
        seq (new_parameter [nat n_out] k) (\<lambda>bs.
        ret \<lparr>in_features = nat n_in, out_features = nat n_out, weight = wt, bias = bs\<rparr>))))"

definition dot :: "real list \<Rightarrow> real list \<Rightarrow> real" where
  "dot a b = sum_list (map2 (*) a b)"

definition matvec :: "real list list \<Rightarrow> real list \<Rightarrow> real list" where
  "matvec m v = map (\<lambda>r. dot r v) m"

definition vadd :: "real list \<Rightarrow> real list \<Rightarrow> real list" where
  "vadd a b = map2 (+) a b"

definition vmul :: "real list \<Rightarrow> real list \<Rightarrow> real list" where
  "vmul a b = map2 (*) a b"

text \<open>\<open>y = x W\<^sup>T + b\<close> on the last dimension; a new tensor.\<close>

definition Linear_forward :: "Linear \<Rightarrow> tensor \<Rightarrow> tensor action" where
  "Linear_forward m x w =
     (if shape x = [] \<or> last (shape x) \<noteq> in_features m
         \<or> device (weight m) \<noteq> device x \<or> device (bias m) \<noteq> device x
      then raise TorchError w
      else new_tensor (butlast (shape x) @ [out_features m]) (device x)
             (concat (map (\<lambda>r. vadd (matvec (chunks (out_features m) (in_features m)
                                                     (tvals (heap w) (weight m))) r)
                                      (tvals (heap w) (bias m)))
                          (chunks (prod_list (butlast (shape x))) (in_features m) (tvals (heap w) x)))) w)"

subsection \<open>\<^verbatim>\<open>nn.LSTM\<close> (\<^verbatim>\<open>batch_first=True\<close>, no projection, no dropout between layers)\<close>

record lstm_weights =
  weight_ih :: tensor
  weight_hh :: tensor
  bias_ih :: tensor
  bias_hh :: tensor

record LSTM =
  lstm_input_size :: nat
  lstm_hidden_size :: nat
  lstm_layers :: "lstm_weights list"

text \<open>The property \<^verbatim>\<open>all_weights\<close>: per layer, the four parameter tensors.\<close>

definition all_weights :: "LSTM \<Rightarrow> tensor list list" where
  "all_weights m = map (\<lambda>l. [weight_ih l, weight_hh l, bias_ih l, bias_hh l]) (lstm_layers m)"

definition LSTM_layer_init :: "nat \<Rightarrow> nat \<Rightarrow> lstm_weights action" where
  "LSTM_layer_init isz hsz =
     (let k = 1 / sqrt (real hsz) in
        seq (new_parameter [4 * hsz, isz] k) (\<lambda>w_ih.
        seq (new_parameter [4 * hsz, hsz] k) (\<lambda>w_hh.
        seq (new_parameter [4 * hsz] k) (\<lambda>b_ih.
        seq (new_parameter [4 * hsz] k) (\<lambda>b_hh.
        ret \<lparr>weight_ih = w_ih, weight_hh = w_hh, bias_ih = b_ih, bias_hh = b_hh\<rparr>)))))"

definition LSTM_init :: "int \<Rightarrow> int \<Rightarrow> int \<Rightarrow> LSTM action" where
  "LSTM_init input_size hidden_sz num_layers =
     (if hidden_sz \<le> 0 \<or> num_layers \<le> 0 \<or> input_size < 0 then raise TorchError
      else seq (comprehension [0..<nat num_layers]
                  (\<lambda>l. LSTM_layer_init (if l = 0 then nat input_size else nat hidden_sz) (nat hidden_sz)))
             (\<lambda>ls. ret \<lparr>lstm_input_size = nat input_size, lstm_hidden_size = nat hidden_sz,
                         lstm_layers = ls\<rparr>))"

definition sigmoid :: "real \<Rightarrow> real" where
  "sigmoid v = 1 / (1 + exp (- v))"

text \<open>One step of the cell on one example: the gates in the library's order i, f, g, o.\<close>

definition lstm_cell ::
  "nat \<Rightarrow> real list list \<Rightarrow> real list list \<Rightarrow> real list \<Rightarrow> real list \<Rightarrow>
   real list \<Rightarrow> real list \<times> real list \<Rightarrow> real list \<times> real list" where
  "lstm_cell hsz w_ih w_hh b_ih b_hh xv = (\<lambda>(hv, cv).
     (let gates = vadd (vadd (matvec w_ih xv) b_ih) (vadd (matvec w_hh hv) b_hh);
          ig = map sigmoid (take hsz gates);
          fg = map sigmoid (take hsz (drop hsz gates));
          gg = map tanh (take hsz (drop (2 * hsz) gates));
          og = map sigmoid (take hsz (drop (3 * hsz) gates));
          c' = vadd (vmul fg cv) (vmul ig gg);
          h' = vmul og (map tanh c')
      in (h', c')))"

text \<open>The cell run over the time steps of one example: the outputs and the last state.\<close>

fun lstm_seq ::
  "(real list \<Rightarrow> real list \<times> real list \<Rightarrow> real list \<times> real list) \<Rightarrow> real list list \<Rightarrow>
   real list \<times> real list \<Rightarrow> real list list \<times> (real list \<times> real list)" where
  "lstm_seq cell [] hc = ([], hc)"
| "lstm_seq cell (xv # xs) hc =
     (let hc' = cell xv hc; r = lstm_seq cell xs hc' in (fst hc' # fst r, snd r))"

text \<open>
  The layers in order, each over every example of the batch: a layer's outputs are the next
  layer's inputs. The result is the last layer's output sequence and, per layer, the final
  hidden and cell vectors of every example.
\<close>

fun lstm_stack ::
  "nat \<Rightarrow> (real list list \<times> real list list \<times> real list list) list \<Rightarrow> real list list list \<Rightarrow>
   real list list list \<times> real list list list \<times> real list list list" where
  "lstm_stack hsz [] xss = (xss, [], [])"
| "lstm_stack hsz ((ps, hs, cs) # rest) xss =
     (let isz = length (ps ! 0) div (4 * hsz);
          cell = lstm_cell hsz (chunks (4 * hsz) isz (ps ! 0)) (chunks (4 * hsz) hsz (ps ! 1))
                   (ps ! 2) (ps ! 3);
          rs = map2 (\<lambda>xs hc. lstm_seq cell xs hc) xss (zip hs cs);
          r = lstm_stack hsz rest (map fst rs)
      in (fst r, map (fst \<circ> snd) rs # fst (snd r), map (snd \<circ> snd) rs # snd (snd r)))"

text \<open>
  The module's call on a batch \<open>[B, L, input_size]\<close> with the state \<open>(h_0, c_0)\<close>, each of
  shape \<open>[num_layers, B, hidden_size]\<close>: the output \<open>[B, L, hidden_size]\<close> and the state
  \<open>(h_n, c_n)\<close>, all new tensors. A wrong shape or a tensor on another device raises.
\<close>

definition LSTM_forward :: "LSTM \<Rightarrow> tensor \<Rightarrow> tensor \<times> tensor \<Rightarrow> (tensor \<times> tensor \<times> tensor) action" where
  "LSTM_forward m x = (\<lambda>(h0, c0) w.
     (let B = shape x ! 0; L = shape x ! 1; hsz = lstm_hidden_size m; nl = length (lstm_layers m)
      in if length (shape x) \<noteq> 3 \<or> shape x ! 2 \<noteq> lstm_input_size m
            \<or> shape h0 \<noteq> [nl, B, hsz] \<or> shape c0 \<noteq> [nl, B, hsz]
            \<or> \<not> list_all (\<lambda>t. device t = device x) (h0 # c0 # concat (all_weights m))
         then raise TorchError w
         else (let xss = map (chunks L (lstm_input_size m))
                             (chunks B (L * lstm_input_size m) (tvals (heap w) x));
                   hss = map (chunks B hsz) (chunks nl (B * hsz) (tvals (heap w) h0));
                   css = map (chunks B hsz) (chunks nl (B * hsz) (tvals (heap w) c0));
                   pss = map (map (tvals (heap w))) (all_weights m);
                   r = lstm_stack hsz (zip pss (zip hss css)) xss
               in seq (new_tensor [B, L, hsz] (device x) (concat (map concat (fst r)))) (\<lambda>out.
                  seq (new_tensor [nl, B, hsz] (device x) (concat (map concat (fst (snd r))))) (\<lambda>h_n.
                  seq (new_tensor [nl, B, hsz] (device x) (concat (map concat (snd (snd r))))) (\<lambda>c_n.
                  ret (out, h_n, c_n)))) w)))"

section \<open>The class \<^verbatim>\<open>RNNet\<close>\<close>

record RNNet =
  add_year_loc :: bool
  dropout :: Dropout
  rnn :: LSTM
  hidden_size :: int
  dense_layers :: "Linear list"

text \<open>
  \<^verbatim>\<open>initialize_weights\<close>: \<^verbatim>\<open>1 / self.hidden_size\<close> raises on 0 and \<^verbatim>\<open>math.sqrt\<close> on a
  negative number, and both return Python floats; then the two loops of the source.
\<close>

definition initialize_weights :: "RNNet \<Rightarrow> unit action" where
  "initialize_weights self =
     (if hidden_size self = 0 then raise ZeroDivisionError
      else if f64 (1 / real_of_int (hidden_size self)) < 0 then raise ValueError
      else (let sqrt_k = f64 (sqrt (f64 (1 / real_of_int (hidden_size self)))) in
        seq (for_each (all_weights (rnn self))
               (\<lambda>parameters u. for_each parameters (\<lambda>pam u. init_uniform pam (- sqrt_k) sqrt_k) ()) ())
          (\<lambda>u. for_each (dense_layers self)
               (\<lambda>dense_layer u. seq (init_kaiming_uniform (weight dense_layer))
                                    (\<lambda>u. init_constant (bias dense_layer) 0)) ())))"

text \<open>
  \<^verbatim>\<open>RNNet.__init__\<close>. The argument \<open>dense_features\<close> is \<^verbatim>\<open>None\<close> or a reference to the
  caller's list object; the list is changed in place.
\<close>

definition RNNet_init ::
  "int \<Rightarrow> int \<Rightarrow> int \<Rightarrow> int \<Rightarrow> real \<Rightarrow> nat option \<Rightarrow> bool \<Rightarrow> RNNet action" where
  "RNNet_init in_channels num_bins hidden_sz num_rnn_layers rnn_dropout dense_features add_yl =
     seq (case dense_features of None \<Rightarrow> list_new [256, 1] | Some a \<Rightarrow> ret a) (\<lambda>dense_features.
     seq (list_insert0 dense_features hidden_sz) (\<lambda>u.
     seq (if add_yl then list_add0 dense_features 3 else ret ()) (\<lambda>u.
     seq (Dropout_init rnn_dropout) (\<lambda>drop.
     seq (LSTM_init (in_channels * num_bins) hidden_sz num_rnn_layers) (\<lambda>lstm.
     seq (list_get dense_features) (\<lambda>df.
     seq (comprehension [1..<length df] (\<lambda>i. Linear_init (df ! (i - 1)) (df ! i))) (\<lambda>layers.
     seq (initialize_weights \<lparr>add_year_loc = add_yl, dropout = drop, rnn = lstm,
                               hidden_size = hidden_sz, dense_layers = layers\<rparr>) (\<lambda>u.
     ret \<lparr>add_year_loc = add_yl, dropout = drop, rnn = lstm,
          hidden_size = hidden_sz, dense_layers = layers\<rparr>))))))))"

subsection \<open>\<^verbatim>\<open>RNNet.forward\<close>\<close>

text \<open>Lines 115 and 116: the input \<open>[batch, bands, times, bins]\<close> as \<open>[batch, times, bands * bins]\<close>.\<close>

definition reshape_input :: "tensor \<Rightarrow> tensor action" where
  "reshape_input x =
     seq (permute_0213 x) (\<lambda>x.
     seq (contiguous x) (\<lambda>x.
     view x [shape x ! 0, shape x ! 1, shape x ! 2 * shape x ! 3]))"

text \<open>Lines 120 to 125: the two state tensors.\<close>

definition init_states :: "RNNet \<Rightarrow> tensor \<Rightarrow> (tensor \<times> tensor) action" where
  "init_states self x =
     seq (torch_zeros [1, int (shape x ! 0), hidden_size self]) (\<lambda>hidden_state.
     seq (torch_zeros [1, int (shape x ! 0), hidden_size self]) (\<lambda>cell_state.
     if is_cuda x then
       seq (cuda hidden_state) (\<lambda>hidden_state.
       seq (cuda cell_state) (\<lambda>cell_state.
       ret (hidden_state, cell_state)))
     else ret (hidden_state, cell_state)))"

text \<open>Lines 132 to 135: the body of the loop over the time steps.\<close>

definition timestep :: "RNNet \<Rightarrow> tensor \<Rightarrow> nat \<Rightarrow> tensor \<times> tensor \<Rightarrow> (tensor \<times> tensor) action" where
  "timestep self x i = (\<lambda>(hidden_state, cell_state).
     seq (select_1 x i) (\<lambda>x_i.
     seq (unsqueeze_1 x_i) (\<lambda>input_x.
     seq (LSTM_forward (rnn self) input_x (hidden_state, cell_state)) (\<lambda>(out, hidden_state, cell_state).
     seq (Dropout_forward (dropout self) hidden_state) (\<lambda>hidden_state.
     ret (hidden_state, cell_state))))))"

text \<open>Line 127: \<^verbatim>\<open>for i in range(sequence_length)\<close>.\<close>

definition recurrence :: "RNNet \<Rightarrow> tensor \<Rightarrow> tensor \<times> tensor \<Rightarrow> (tensor \<times> tensor) action" where
  "recurrence self x = for_each [0..<shape x ! 1] (timestep self x)"

text \<open>
  Lines 139 to 141. \<^verbatim>\<open>years.unsqueeze(1)\<close> is evaluated first and raises AttributeError on
  \<^verbatim>\<open>None\<close>; \<^verbatim>\<open>torch.cat\<close> raises TypeError on \<^verbatim>\<open>None\<close>.
\<close>

definition augment :: "RNNet \<Rightarrow> tensor \<Rightarrow> tensor option \<Rightarrow> tensor option \<Rightarrow> tensor action" where
  "augment self x years locations =
     (if add_year_loc self then
        (case years of
           None \<Rightarrow> raise AttributeError
         | Some ys \<Rightarrow>
             seq (unsqueeze_1 ys) (\<lambda>ys1.
               (case locations of
                  None \<Rightarrow> raise TypeError
                | Some locs \<Rightarrow>
                    seq (cat_1 ys1 locs) (\<lambda>year_loc.
                    cat_1 x year_loc))))
      else ret x)"

text \<open>
  Lines 143 to 146: the loop over the dense layers. The local \<open>output\<close> is unbound (\<open>None\<close>
  here) until the assignment of line 146 runs.
\<close>

definition dense_step ::
  "RNNet \<Rightarrow> bool \<Rightarrow> nat \<times> Linear \<Rightarrow> tensor \<times> tensor option \<Rightarrow> (tensor \<times> tensor option) action" where
  "dense_step self return_last_dense = (\<lambda>(layer_number, dense_layer) (x, output).
     seq (Linear_forward dense_layer x) (\<lambda>x.
     ret (x, if return_last_dense \<and> int layer_number = int (length (dense_layers self)) - 2
             then Some x else output)))"

definition dense_stack :: "RNNet \<Rightarrow> bool \<Rightarrow> tensor \<Rightarrow> (tensor \<times> tensor option) action" where
  "dense_stack self return_last_dense x =
     for_each (enumerate 0 (dense_layers self)) (dense_step self return_last_dense) (x, None)"

text \<open>
  Lines 115 to 137 and lines 115 to 141 as stages: the feature vector the recurrence leaves,
  and the tensor that enters the dense layers. The stages are named for the statements about
  them; together with \<open>forward\<close> below they are the source's body in the source's order.
\<close>

definition recurrent_features :: "RNNet \<Rightarrow> tensor \<Rightarrow> tensor action" where
  "recurrent_features self x =
     seq (reshape_input x) (\<lambda>x.
     seq (init_states self x) (\<lambda>states.
     seq (recurrence self x states) (\<lambda>(hidden_state, cell_state).
     ret (squeeze_0 hidden_state))))"

definition features :: "RNNet \<Rightarrow> tensor \<Rightarrow> tensor option \<Rightarrow> tensor option \<Rightarrow> tensor action" where
  "features self x years locations =
     seq (recurrent_features self x) (\<lambda>x. augment self x years locations)"

datatype forward_result = Output tensor | OutputAndFeatures tensor tensor

definition forward ::
  "RNNet \<Rightarrow> tensor \<Rightarrow> tensor option \<Rightarrow> tensor option \<Rightarrow> bool \<Rightarrow> forward_result action" where
  "forward self x years locations return_last_dense =
     seq (features self x years locations) (\<lambda>x.
     seq (dense_stack self return_last_dense x) (\<lambda>(x, output).
     if return_last_dense then
       (case output of
          None \<Rightarrow> raise UnboundLocalError
        | Some feat \<Rightarrow> ret (OutputAndFeatures x feat))
     else ret (Output x)))"

section \<open>The class \<^verbatim>\<open>RNNModel\<close>\<close>

text \<open>
  \<^verbatim>\<open>RNNModel.__init__\<close> up to the call of the base class's constructor (which is not part
  of the file): the record holds the network and the three strings passed on.
\<close>

record RNNModel =
  model :: RNNet
  model_weight :: string
  model_bias :: string
  model_type :: string

definition RNNModel_init ::
  "int \<Rightarrow> int \<Rightarrow> int \<Rightarrow> real \<Rightarrow> nat option \<Rightarrow> bool \<Rightarrow> RNNModel action" where
  "RNNModel_init in_channels num_bins hidden_sz rnn_dropout dense_features add_yl =
     seq (RNNet_init in_channels num_bins hidden_sz 1 rnn_dropout dense_features add_yl) (\<lambda>net.
     seq (case dense_features of
            None \<Rightarrow> ret 2
          | Some a \<Rightarrow> seq (list_get a) (\<lambda>df. ret (int (length df)))) (\<lambda>num_dense_layers.
     ret \<lparr>model = net,
          model_weight = ''dense_layers.'' @ str_int (num_dense_layers - 1) @ ''.weight'',
          model_bias = ''dense_layers.'' @ str_int (num_dense_layers - 1) @ ''.bias'',
          model_type = (if add_yl then ''rnn_year_loc'' else ''rnn'')\<rparr>))"

text \<open>\<^verbatim>\<open>reinitialize_model(self, time=None)\<close>: the argument is not used.\<close>

definition reinitialize_model :: "RNNModel \<Rightarrow> int option \<Rightarrow> unit action" where
  "reinitialize_model self time = initialize_weights (model self)"

section \<open>Predicates of the statements\<close>

text \<open>An action returns a value (it raises nothing) and the value and final state satisfy \<open>Q\<close>.\<close>

definition returns :: "'a action \<Rightarrow> world \<Rightarrow> ('a \<Rightarrow> world \<Rightarrow> bool) \<Rightarrow> bool" where
  "returns m w Q = (case m w of (Inr v, w') \<Rightarrow> Q v w' | (Inl e, w') \<Rightarrow> False)"

text \<open>
  The final state keeps every storage of the initial state as it was (new storages may
  follow them), every Python list, the random stream and the current CUDA device.
\<close>

definition preserves :: "world \<Rightarrow> world \<Rightarrow> bool" where
  "preserves w w' =
     (length (heap w) \<le> length (heap w') \<and> take (length (heap w)) (heap w') = heap w
      \<and> pylists w' = pylists w \<and> pyfresh w' = pyfresh w
      \<and> draws w' = draws w \<and> cuda_current w' = cuda_current w)"

text \<open>The shapes and devices of a dense layer's parameters, as \<^verbatim>\<open>nn.Linear\<close> makes them.\<close>

definition linear_ok :: "device \<Rightarrow> Linear \<Rightarrow> bool" where
  "linear_ok d l =
     (shape (weight l) = [out_features l, in_features l] \<and> shape (bias l) = [out_features l]
      \<and> device (weight l) = d \<and> device (bias l) = d)"

text \<open>The dense layers follow a list of widths: layer \<open>i\<close> maps width \<open>i\<close> to width \<open>i + 1\<close>.\<close>

fun chain_ok :: "nat list \<Rightarrow> Linear list \<Rightarrow> bool" where
  "chain_ok [n] [] = True"
| "chain_ok (a # b # r) (l # ls) = (in_features l = a \<and> out_features l = b \<and> chain_ok (b # r) ls)"
| "chain_ok ns ls = False"

text \<open>
  A network as \<^verbatim>\<open>RNNet.__init__\<close> makes it with one recurrent layer, with its parameters
  on device \<open>d\<close> and its dense layers following the width list \<open>widths\<close>.
\<close>

definition net_ok :: "device \<Rightarrow> nat list \<Rightarrow> RNNet \<Rightarrow> bool" where
  "net_ok d widths self =
     (0 < lstm_hidden_size (rnn self) \<and> length (lstm_layers (rnn self)) = 1
      \<and> list_all (\<lambda>t. device t = d) (concat (all_weights (rnn self)))
      \<and> hidden_size self = int (lstm_hidden_size (rnn self))
      \<and> list_all (linear_ok d) (dense_layers self)
      \<and> chain_ok widths (dense_layers self)
      \<and> (case widths of [] \<Rightarrow> False
          | a # r \<Rightarrow> a = lstm_hidden_size (rnn self) + (if add_year_loc self then 3 else 0)))"

text \<open>
  Everything of the state but the heap and the generator's position is as it was, and the
  heap has lost no storage.
\<close>

definition same_env :: "world \<Rightarrow> world \<Rightarrow> bool" where
  "same_env w w' = (pylists w' = pylists w \<and> pyfresh w' = pyfresh w
      \<and> draws w' = draws w \<and> cuda_current w' = cuda_current w
      \<and> length (heap w) \<le> length (heap w'))"

text \<open>A state in which the caller holds the list \<^verbatim>\<open>[256, 1]\<close> at address 0.\<close>

definition caller_world :: world where
  "caller_world = \<lparr>heap = [], pylists = (\<lambda>a. [])(0 := [256, 1]), pyfresh = 1, draws = (\<lambda>k. 0),
         rng_pos = 0, cuda_current = 0\<rparr>"

text \<open>What the loop keeps true of the two state tensors.\<close>

definition state_ok :: "device \<Rightarrow> nat \<Rightarrow> nat \<Rightarrow> tensor \<times> tensor \<Rightarrow> bool" where
  "state_ok d B H = (\<lambda>(h, c). shape h = [1, B, H] \<and> shape c = [1, B, H]
      \<and> length (strides h) = 3 \<and> device h = d \<and> device c = d)"

text \<open>The dense layers applied in order, each to the output of the one before.\<close>

definition run_layers :: "Linear list \<Rightarrow> tensor \<Rightarrow> tensor action" where
  "run_layers ls = for_each ls (\<lambda>l x. Linear_forward l x)"

text \<open>
  The year and location arguments a call with augmentation needs: a year per example and a
  2-component location per example, on the device of the network.
\<close>

definition valid_year_loc :: "device \<Rightarrow> nat \<Rightarrow> tensor option \<Rightarrow> tensor option \<Rightarrow> bool" where
  "valid_year_loc d B years locations =
     (case (years, locations) of
        (Some ys, Some locs) \<Rightarrow>
          shape ys = [B] \<and> length (strides ys) = 1 \<and> device ys = d
          \<and> shape locs = [B, 2] \<and> device locs = d
      | other \<Rightarrow> False)"

text \<open>
  A concrete call, used to instantiate the statements: one example with one band, three time
  steps and one bin in storage 0, its year in storage 1 and its location in storage 2, the
  generator drawing 1/2 every time.
\<close>

definition example_world :: world where
  "example_world = \<lparr>heap = [[1, 2, 3], [2015], [41, - 93]], pylists = (\<lambda>a. []), pyfresh = 0, draws = (\<lambda>k. 1 / 2),
     rng_pos = 0, cuda_current = 0\<rparr>"

definition example_x :: tensor where
  "example_x = \<lparr>storage = 0, offset = 0, shape = [1, 1, 3, 1], strides = [3, 3, 1, 1], device = CPU\<rparr>"

text \<open>\<^verbatim>\<open>RNNet(in_channels=1, num_bins=1, hidden_size=2)\<close>: the default dense widths 256 and 1.\<close>

definition example_net :: RNNet where
  "example_net = projr (fst (RNNet_init 1 1 2 1 (1 / 4) None False example_world))"

definition example_net_world :: world where
  "example_net_world = snd (RNNet_init 1 1 2 1 (1 / 4) None False example_world)"

text \<open>The shapes of the tensors a call returns.\<close>

fun result_shapes :: "forward_result \<Rightarrow> nat list list" where
  "result_shapes (Output y) = [shape y]"
| "result_shapes (OutputAndFeatures y f) = [shape y, shape f]"

text \<open>
  The scenario of claim C2: the caller's list \<^verbatim>\<open>[1]\<close> at address 0 and
  \<^verbatim>\<open>RNNet(in_channels=1, num_bins=1, hidden_size=2, dense_features=[1])\<close>.
\<close>

definition single_layer_world :: world where
  "single_layer_world = example_world\<lparr>pylists := (\<lambda>a. [])(0 := [1]), pyfresh := 1\<rparr>"

definition single_layer_net :: RNNet where
  "single_layer_net = projr (fst (RNNet_init 1 1 2 1 (1 / 4) (Some 0) False single_layer_world))"

definition single_layer_net_world :: world where
  "single_layer_net_world = snd (RNNet_init 1 1 2 1 (1 / 4) (Some 0) False single_layer_world)"

text \<open>The year and the location of the example.\<close>

definition example_years :: tensor where
  "example_years = \<lparr>storage = 1, offset = 0, shape = [1], strides = [1], device = CPU\<rparr>"

definition example_locations :: tensor where
  "example_locations = \<lparr>storage = 2, offset = 0, shape = [1, 2], strides = [2, 1], device = CPU\<rparr>"

text \<open>\<^verbatim>\<open>RNNet(in_channels=1, num_bins=1, hidden_size=2, add_year_loc=True)\<close>.\<close>

definition example_net_yl :: RNNet where
  "example_net_yl = projr (fst (RNNet_init 1 1 2 1 (1 / 4) None True example_world))"

definition example_net_yl_world :: world where
  "example_net_yl_world = snd (RNNet_init 1 1 2 1 (1 / 4) None True example_world)"

text \<open>The input of the example on the second GPU, \<^verbatim>\<open>cuda:1\<close>.\<close>

definition example_x_cuda1 :: tensor where
  "example_x_cuda1 = example_x\<lparr>device := CUDA 1\<rparr>"

text \<open>What a caller sees of the two state tensors: shape, device and elements.\<close>

definition describe_states ::
  "(error + tensor \<times> tensor) \<times> world \<Rightarrow> (error + (nat list \<times> device \<times> real list) \<times> (nat list \<times> device \<times> real list))" where
  "describe_states r =
     (case r of
        (Inl e, w') \<Rightarrow> Inl e
      | (Inr (h, c), w') \<Rightarrow>
          Inr ((shape h, device h, tvals (heap w') h), (shape c, device c, tvals (heap w') c)))"

text \<open>
  An action is framed when, from every state and whether it returns or raises, it leaves
  every storage of the initial state as it was.
\<close>

definition framed :: "'a action \<Rightarrow> bool" where
  "framed m = (\<forall>w. preserves w (snd (m w)))"

text \<open>
  A parameter tensor as the module constructors allocate it: the whole of a storage of its
  own, in row-major order.
\<close>

definition plain :: "real list list \<Rightarrow> tensor \<Rightarrow> bool" where
  "plain H t = (storage t < length H \<and> offset t = 0 \<and> strides t = cstrides (shape t)
      \<and> length (H ! storage t) = numel t)"

text \<open>\<^verbatim>\<open>self.parameters()\<close>: the recurrent layer's tensors, then weight and bias of each dense layer.\<close>

definition parameters :: "RNNet \<Rightarrow> tensor list" where
  "parameters self =
     concat (all_weights (rnn self)) @ concat (map (\<lambda>l. [weight l, bias l]) (dense_layers self))"

definition params_ok :: "real list list \<Rightarrow> RNNet \<Rightarrow> bool" where
  "params_ok H self = (list_all (plain H) (parameters self) \<and> distinct (map storage (parameters self)))"

text \<open>The generator's draws lie in the unit interval.\<close>

definition unit_draws :: "world \<Rightarrow> bool" where
  "unit_draws w = (\<forall>k. 0 \<le> draws w k \<and> draws w k \<le> 1)"

text \<open>The heap has lost no storage and every storage it had has kept its length.\<close>

definition grows :: "world \<Rightarrow> world \<Rightarrow> bool" where
  "grows w w' = (length (heap w) \<le> length (heap w')
      \<and> (\<forall>s < length (heap w). length (heap w' ! s) = length (heap w ! s)))"

text \<open>Plain tensors in pairwise different storages, none of them below storage \<open>n0\<close>.\<close>

definition fresh_params :: "nat \<Rightarrow> real list list \<Rightarrow> tensor list \<Rightarrow> bool" where
  "fresh_params n0 H ts = (list_all (plain H) ts \<and> distinct (map storage ts)
      \<and> list_all (\<lambda>t. n0 \<le> storage t) ts)"

text \<open>The numbers of the format: a significand of fewer than \<open>p\<close> bits times a power of 2 that is
  not below the smallest quantum.\<close>

definition representable :: "nat \<Rightarrow> int \<Rightarrow> real \<Rightarrow> bool" where
  "representable p emin y = (\<exists>m k. y = of_int m * 2 powi k \<and> \<bar>m\<bar> < 2 ^ p \<and> emin - int p + 1 \<le> k)"

text \<open>
  \<^verbatim>\<open>RNNModel(in_channels=1, num_bins=1, hidden_size=100, rnn_dropout=0.25)\<close>, and the state its
  construction leaves with a generator whose next draw is 0 and every other draw 1/2.
\<close>

definition model100 :: RNNModel where
  "model100 = projr (fst (RNNModel_init 1 1 100 (1 / 4) None False example_world))"

definition model100_world :: world where
  "model100_world =
     (let w = snd (RNNModel_init 1 1 100 (1 / 4) None False example_world)
      in w\<lparr>draws := (\<lambda>k. if k = rng_pos w then 0 else 1 / 2)\<rparr>)"

text \<open>The first tensor of its \<^verbatim>\<open>rnn.all_weights\<close>.\<close>

definition first_weight100 :: tensor where
  "first_weight100 = hd (hd (all_weights (rnn (model model100))))"

text \<open>The state after the constructed example network, with a generator that draws 0, 1/2, 1, 0, 1/2, 1 and so on.\<close>

definition ramp_world :: world where
  "ramp_world = example_net_world\<lparr>draws := (\<lambda>k. real (k mod 3) / 2)\<rparr>"

text \<open>
  The recurrence in the words of the specification (section 4.2, step 3), to be compared
  with the loop of the source. The single-timestep slice: the input \<open>[B, T, F]\<close> at time \<open>t\<close>,
  as a view of shape \<open>[B, 1, F]\<close>.
\<close>

definition spec_slice :: "tensor \<Rightarrow> nat \<Rightarrow> tensor action" where
  "spec_slice x t =
     (if length (shape x) = 3 \<and> length (strides x) = 3 \<and> t < shape x ! 1
      then ret (x\<lparr>offset := offset x + t * (strides x ! 1),
                  shape := [shape x ! 0, 1, shape x ! 2],
                  strides := [strides x ! 0, shape x ! 2 * (strides x ! 2), strides x ! 2]\<rparr>)
      else raise TorchError)"

text \<open>
  ``Feed the single-timestep slice and the current (hidden, cell) pair into the recurrent
  cell, obtain updated (hidden, cell)''.
\<close>

definition spec_cell :: "RNNet \<Rightarrow> tensor \<Rightarrow> tensor \<times> tensor \<Rightarrow> (tensor \<times> tensor) action" where
  "spec_cell self slice state =
     seq (LSTM_forward (rnn self) slice state) (\<lambda>(out, hidden, cell). ret (hidden, cell))"

text \<open>``Then apply dropout to the hidden state only (not the cell state)''.\<close>

definition spec_dropout_hidden :: "RNNet \<Rightarrow> tensor \<times> tensor \<Rightarrow> (tensor \<times> tensor) action" where
  "spec_dropout_hidden self = (\<lambda>(hidden, cell).
     seq (Dropout_forward (dropout self) hidden) (\<lambda>dropped. ret (dropped, cell)))"

text \<open>
  ``For each timestep index from 0 to time-1 (strict sequential order)'', with the dropout
  ``every step, including after the final step'': \<open>T\<close> steps, step \<open>t\<close> on the state that the
  steps before it left. The recursion is on the number of steps, so the last step, with its
  dropout, is the outermost.
\<close>

primrec spec_recurrence :: "RNNet \<Rightarrow> tensor \<Rightarrow> nat \<Rightarrow> tensor \<times> tensor \<Rightarrow> (tensor \<times> tensor) action" where
  "spec_recurrence self x 0 state = ret state"
| "spec_recurrence self x (Suc t) state =
     seq (spec_recurrence self x t state) (\<lambda>state.
     seq (spec_slice x t) (\<lambda>slice.
     seq (spec_cell self slice state) (spec_dropout_hidden self)))"

section \<open>Rounding to nearest\<close>

lemma round_even_int [simp]: "round_even (of_int n) = n"
  by (simp add: round_even_def)

lemma round_even_cases: "round_even r = \<lfloor>r\<rfloor> \<or> round_even r = \<lfloor>r\<rfloor> + 1"
  by (simp add: round_even_def Let_def)

lemma round_even_near: "\<bar>r - of_int n\<bar> < 1 / 2 \<Longrightarrow> round_even r = n"
proof -
  assume a: "\<bar>r - of_int n\<bar> < 1 / 2"
  show ?thesis
  proof (cases "of_int n \<le> r")
    case True
    then have "\<lfloor>r\<rfloor> = n" using a by (intro floor_unique) auto
    then show ?thesis using a True by (simp add: round_even_def)
  next
    case False
    then have "\<lfloor>r\<rfloor> = n - 1" using a by (intro floor_unique) auto
    then show ?thesis using a False by (auto simp add: round_even_def)
  qed
qed

lemma round_even_mono: "r \<le> s \<Longrightarrow> round_even r \<le> round_even s"
proof -
  assume le: "r \<le> s"
  have fl: "\<lfloor>r\<rfloor> \<le> \<lfloor>s\<rfloor>" using le by (rule floor_mono)
  show ?thesis
  proof (cases "\<lfloor>r\<rfloor> = \<lfloor>s\<rfloor>")
    case True
    then show ?thesis using le by (auto simp add: round_even_def Let_def)
  next
    case False
    then have "\<lfloor>r\<rfloor> + 1 \<le> \<lfloor>s\<rfloor>" using fl by simp
    moreover have "round_even r \<le> \<lfloor>r\<rfloor> + 1" using round_even_cases[of r] by auto
    moreover have "\<lfloor>s\<rfloor> \<le> round_even s" using round_even_cases[of s] by auto
    ultimately show ?thesis by linarith
  qed
qed

lemma round_even_minus: "round_even (- r) = - round_even r"
proof (cases "r = of_int \<lfloor>r\<rfloor>")
  case True
  then obtain n where "r = of_int n" by blast
  then have "- r = of_int (- n)" by simp
  then show ?thesis using \<open>r = of_int n\<close> by (simp only: round_even_int)
next
  case False
  then have lt: "of_int \<lfloor>r\<rfloor> < r" by (metis floor_eq_iff less_eq_real_def of_int_floor_le)
  have fm: "\<lfloor>- r\<rfloor> = - \<lfloor>r\<rfloor> - 1"
    using lt by (intro floor_unique) (auto, linarith)
  show ?thesis
    using lt by (auto simp add: round_even_def Let_def fm)
qed

lemma round_even_nonneg: "0 \<le> r \<Longrightarrow> 0 \<le> round_even r"
  using round_even_mono[of 0 r] round_even_int[of 0] by simp

lemma two_powi_pos [simp]: "0 < (2::real) powi k"
  by (simp add: power_int_def)

lemma two_powi_add: "(2::real) powi (a + b) = 2 powi a * 2 powi b"
  by (simp add: power_int_add)

lemma two_powi_mono: "a \<le> b \<Longrightarrow> (2::real) powi a \<le> 2 powi b"
  by (simp add: power_int_increasing)

lemma two_powi_powr: "(2::real) powi k = 2 powr (of_int k)"
  by (simp add: powr_real_of_int' power_int_def)

text \<open>The exponent of a number between two powers of 2.\<close>

lemma expo_eq: "2 powi e \<le> \<bar>x\<bar> \<Longrightarrow> \<bar>x\<bar> < 2 powi (e + 1) \<Longrightarrow> expo x = e"
proof -
  assume a: "2 powi e \<le> \<bar>x\<bar>" "\<bar>x\<bar> < 2 powi (e + 1)"
  have "0 < \<bar>x\<bar>" using a(1) two_powi_pos[of e] by linarith
  then show ?thesis
    unfolding expo_def using a by (simp add: floor_log_eq_powr_iff two_powi_powr)
qed

lemma expo_bounds: "x \<noteq> 0 \<Longrightarrow> 2 powi (expo x) \<le> \<bar>x\<bar> \<and> \<bar>x\<bar> < 2 powi (expo x + 1)"
proof -
  assume "x \<noteq> 0"
  then have "0 < \<bar>x\<bar>" by simp
  from floor_log_eq_powr_iff[OF this, of 2 "expo x"] show ?thesis
    by (simp add: expo_def two_powi_powr)
qed

lemma expo_minus [simp]: "expo (- x) = expo x"
  by (simp add: expo_def)

lemma expo_mono: "0 < x \<Longrightarrow> x \<le> y \<Longrightarrow> expo x \<le> expo y"
  unfolding expo_def by (intro floor_mono) (simp add: log_le_cancel_iff)

lemma rnd_0 [simp]: "rnd p emin 0 = 0"
  by (simp add: rnd_def)

lemma rnd_minus: "rnd p emin (- x) = - rnd p emin x"
  by (simp add: rnd_def Let_def round_even_minus)

text \<open>Evaluation: the rounding of a number whose exponent and nearest multiple are known.\<close>

lemma rnd_eval:
  assumes "2 powi e \<le> \<bar>x\<bar>" "\<bar>x\<bar> < 2 powi (e + 1)"
    and "q = 2 powi (max e emin - int p + 1)" and "\<bar>x / q - of_int n\<bar> < 1 / 2"
  shows "rnd p emin x = of_int n * q"
proof -
  have "x \<noteq> 0"
  proof
    assume "x = 0"
    with assms(1) have "(2::real) powi e \<le> 0" by simp
    with two_powi_pos[of e] show False by linarith
  qed
  then show ?thesis
    using expo_eq[OF assms(1,2)] round_even_near[OF assms(4)] by (simp add: rnd_def assms(3))
qed

lemma of_int_two_powi_nonneg: "0 \<le> k \<Longrightarrow> (2::real) powi k = of_int (2 ^ nat k)"
  by (simp add: power_int_def)

lemma rnd_representable:
  assumes "representable p emin y"
  shows "rnd p emin y = y"
proof (cases "y = 0")
  case True
  then show ?thesis by simp
next
  case False
  from assms obtain m k where y: "y = of_int m * 2 powi k" and m: "\<bar>m\<bar> < 2 ^ p"
    and k: "emin - int p + 1 \<le> k"
    by (auto simp: representable_def)
  define E where "E = max (expo y) emin"
  have "\<bar>y\<bar> = of_int \<bar>m\<bar> * 2 powi k" by (simp add: y abs_mult)
  also have "\<dots> < 2 ^ p * 2 powi k"
  proof -
    have "(of_int \<bar>m\<bar> :: real) < of_int (2 ^ p)" using m by (simp only: of_int_less_iff)
    then show ?thesis by simp
  qed
  also have "\<dots> = 2 powi (int p + k)" by (simp add: two_powi_add)
  finally have up: "\<bar>y\<bar> < 2 powi (int p + k)" .
  have "expo y < int p + k"
  proof (rule ccontr)
    assume "\<not> expo y < int p + k"
    then have "(2::real) powi (int p + k) \<le> 2 powi (expo y)" by (intro two_powi_mono) simp
    with expo_bounds[OF False] up show False by linarith
  qed
  then have Ek: "E - int p + 1 \<le> k" using k by (simp add: E_def)
  define d where "d = k - (E - int p + 1)"
  have d0: "0 \<le> d" using Ek by (simp add: d_def)
  have "y / 2 powi (E - int p + 1) = of_int m * 2 powi d"
    by (simp add: y d_def power_int_diff)
  also have "\<dots> = of_int (m * 2 ^ nat d)" by (simp add: of_int_two_powi_nonneg[OF d0])
  finally have q: "y / 2 powi (E - int p + 1) = of_int (m * 2 ^ nat d)" .
  have "rnd p emin y = of_int (round_even (y / 2 powi (E - int p + 1))) * 2 powi (E - int p + 1)"
    using False by (simp add: rnd_def E_def Let_def)
  also have "\<dots> = y / 2 powi (E - int p + 1) * 2 powi (E - int p + 1)"
    by (simp only: q round_even_int)
  also have "\<dots> = y" by simp
  finally show ?thesis .
qed

lemma representable_0: "representable p emin 0"
  unfolding representable_def by (rule exI[of _ 0], rule exI[of _ "emin - int p + 1"]) simp

lemma representable_minus: "representable p emin y \<Longrightarrow> representable p emin (- y)"
  unfolding representable_def
  by (elim exE conjE, rule_tac x = "- m" in exI, rule_tac x = k in exI) simp

lemma representable_double: "representable p emin y \<Longrightarrow> representable p emin (2 * y)"
  unfolding representable_def
  by (elim exE conjE, rule_tac x = m in exI, rule_tac x = "k + 1" in exI) (simp add: two_powi_add)

text \<open>For a positive number: the scaled value lies below \<open>2 ^ p\<close>, and at or above
  \<open>2 ^ (p - 1)\<close> when the exponent is in the normal range.\<close>

lemma scaled_bounds:
  fixes x :: real and p :: nat and emin :: int
  assumes "0 < x" "0 < p"
  defines "E \<equiv> max (expo x) emin"
  defines "q \<equiv> 2 powi (E - int p + 1)"
  shows "x / q < 2 ^ p" "emin \<le> expo x \<Longrightarrow> 2 ^ (p - 1) \<le> x / q"
proof -
  have x0: "x \<noteq> 0" using assms(1) by simp
  have q0: "0 < q" by (simp add: q_def)
  have "x < 2 powi (expo x + 1)" using expo_bounds[OF x0] assms(1) by simp
  also have "\<dots> \<le> 2 powi (E + 1)" by (intro two_powi_mono) (simp add: E_def)
  also have "E + 1 = int p + (E - int p + 1)" by simp
  also have "2 powi (int p + (E - int p + 1)) = 2 powi int p * q"
    by (simp only: two_powi_add q_def)
  also have "(2::real) powi int p = 2 ^ p" by simp
  finally show "x / q < 2 ^ p" using q0 by (simp add: pos_divide_less_eq)
  assume n: "emin \<le> expo x"
  then have "E = expo x" by (simp add: E_def)
  have "2 ^ (p - 1) * q = 2 powi int (p - 1) * q" by simp
  also have "\<dots> = 2 powi (int (p - 1) + (E - int p + 1))"
    by (simp only: two_powi_add q_def)
  also have "int (p - 1) + (E - int p + 1) = E" using assms(2) by (simp add: of_nat_diff)
  also have "2 powi E \<le> x" using expo_bounds[OF x0] assms(1) \<open>E = expo x\<close> by simp
  finally show "2 ^ (p - 1) \<le> x / q" using q0 by (simp add: pos_le_divide_eq)
qed

lemma rnd_pos_form:
  fixes x :: real and p :: nat and emin :: int
  assumes "0 < x" "0 < p"
  defines "E \<equiv> max (expo x) emin"
  defines "q \<equiv> 2 powi (E - int p + 1)"
  defines "n \<equiv> round_even (x / q)"
  shows "rnd p emin x = of_int n * q" "0 \<le> n" "n \<le> 2 ^ p" "emin \<le> expo x \<Longrightarrow> 2 ^ (p - 1) \<le> n"
proof -
  show "rnd p emin x = of_int n * q"
    using assms(1) by (simp add: rnd_def Let_def n_def q_def E_def)
  have q0: "0 < q" by (simp add: q_def)
  have "0 \<le> x / q" using assms(1) q0 by simp
  then show "0 \<le> n" unfolding n_def by (rule round_even_nonneg)
  have "x / q \<le> of_int (2 ^ p)"
    using scaled_bounds(1)[OF assms(1,2), of emin] by (simp add: q_def E_def)
  from round_even_mono[OF this] show "n \<le> 2 ^ p" by (simp only: n_def round_even_int)
  assume "emin \<le> expo x"
  from scaled_bounds(2)[OF assms(1,2) this] have "of_int (2 ^ (p - 1)) \<le> x / q"
    by (simp add: q_def E_def)
  from round_even_mono[OF this] show "2 ^ (p - 1) \<le> n" by (simp only: n_def round_even_int)
qed

lemma rnd_nonneg: "0 < p \<Longrightarrow> 0 \<le> x \<Longrightarrow> 0 \<le> rnd p emin x"
proof (cases "x = 0")
  case True
  then show ?thesis by simp
next
  case False
  assume "0 < p" "0 \<le> x"
  with False have "0 < x" by simp
  from rnd_pos_form(1,2)[OF this \<open>0 < p\<close>, of emin] show ?thesis by simp
qed

lemma representable_rnd_pos:
  assumes "0 < x" "0 < p"
  shows "representable p emin (rnd p emin x)"
proof -
  define E where "E = max (expo x) emin"
  define q :: real where "q = 2 powi (E - int p + 1)"
  define n where "n = round_even (x / q)"
  note f = rnd_pos_form[OF assms, of emin, folded E_def, folded q_def, folded n_def]
  show ?thesis
  proof (cases "n = 2 ^ p")
    case True
    have "(2::real) ^ p = 2 ^ (p - 1) * 2" using assms(2) by (cases p) simp_all
    then have "rnd p emin x = of_int (2 ^ (p - 1)) * 2 powi (E - int p + 1 + 1)"
      by (simp add: f(1) True q_def two_powi_add)
    moreover have "\<bar>2 ^ (p - 1) :: int\<bar> < 2 ^ p" using assms(2) by simp
    moreover have "emin - int p + 1 \<le> E - int p + 1 + 1" by (simp add: E_def)
    ultimately show ?thesis unfolding representable_def by blast
  next
    case False
    then have "\<bar>n\<bar> < 2 ^ p" using f(2,3) by simp
    moreover have "emin - int p + 1 \<le> E - int p + 1" by (simp add: E_def)
    ultimately show ?thesis unfolding representable_def using f(1) q_def by blast
  qed
qed

lemma representable_rnd:
  assumes "0 < p"
  shows "representable p emin (rnd p emin x)"
proof -
  consider "x = 0" | "0 < x" | "0 < - x" by linarith
  then show ?thesis
  proof cases
    case 1
    then show ?thesis by (simp add: representable_0)
  next
    case 2
    then show ?thesis by (rule representable_rnd_pos[OF _ assms])
  next
    case 3
    from representable_minus[OF representable_rnd_pos[OF this assms, of emin]]
    show ?thesis by (simp add: rnd_minus)
  qed
qed

lemma rnd_idem: "0 < p \<Longrightarrow> rnd p emin (rnd p emin x) = rnd p emin x"
  by (rule rnd_representable, rule representable_rnd)

lemma rnd_mono_pos:
  assumes "0 < x" "x \<le> y" "0 < p"
  shows "rnd p emin x \<le> rnd p emin y"
proof -
  have y0: "0 < y" using assms by simp
  define Ex where "Ex = max (expo x) emin"
  define Ey where "Ey = max (expo y) emin"
  define qx :: real where "qx = 2 powi (Ex - int p + 1)"
  define qy :: real where "qy = 2 powi (Ey - int p + 1)"
  note fx = rnd_pos_form[OF assms(1,3), of emin, folded Ex_def, folded qx_def]
  note fy = rnd_pos_form[OF y0 assms(3), of emin, folded Ey_def, folded qy_def]
  have le: "Ex \<le> Ey" using expo_mono[OF assms(1,2)] by (simp add: Ex_def Ey_def)
  show ?thesis
  proof (cases "Ex = Ey")
    case True
    then have qq: "qx = qy" by (simp add: qx_def qy_def)
    have "x / qy \<le> y / qy" using assms(2) by (simp add: qy_def divide_right_mono)
    from round_even_mono[OF this] show ?thesis
      by (simp add: fx(1) fy(1) qq qy_def)
  next
    case False
    then have lt: "Ex + 1 \<le> Ey" using le by simp
    then have n: "emin \<le> expo y" "Ey = expo y" by (auto simp: Ey_def Ex_def)
    have "rnd p emin x \<le> 2 ^ p * qx"
      using fx(3) by (simp add: fx(1) qx_def) 
    also have "\<dots> = 2 powi int p * qx" by simp
    also have "\<dots> = 2 powi (int p + (Ex - int p + 1))" by (simp only: two_powi_add qx_def)
    also have "\<dots> \<le> 2 powi Ey" using lt by (intro two_powi_mono) simp
    also have "Ey = int (p - 1) + (Ey - int p + 1)" using assms(3) by (simp add: of_nat_diff)
    also have "2 powi (int (p - 1) + (Ey - int p + 1)) = 2 powi int (p - 1) * qy"
      by (simp only: two_powi_add qy_def)
    also have "\<dots> = of_int (2 ^ (p - 1)) * qy" by simp
    also have "\<dots> \<le> rnd p emin y"
      using fy(4)[OF n(1)] by (simp only: fy(1)) (simp add: qy_def)
    finally show ?thesis .
  qed
qed

lemma rnd_mono:
  assumes "x \<le> y" "0 < p"
  shows "rnd p emin x \<le> rnd p emin y"
proof -
  consider "0 < x" | "x \<le> 0" "0 \<le> y" | "y < 0" using assms(1) by linarith
  then show ?thesis
  proof cases
    case 1
    then show ?thesis by (rule rnd_mono_pos[OF _ assms])
  next
    case 2
    have "rnd p emin x \<le> 0" using rnd_nonneg[OF assms(2), of "- x" emin] 2(1) by (simp add: rnd_minus)
    also have "0 \<le> rnd p emin y" by (rule rnd_nonneg[OF assms(2) 2(2)])
    finally show ?thesis .
  next
    case 3
    then have "0 < - y" "- y \<le> - x" using assms(1) by simp_all
    from rnd_mono_pos[OF this assms(2), of emin] show ?thesis by (simp add: rnd_minus)
  qed
qed

lemma rnd_sqrt_eval:
  assumes "(2 powi e)\<^sup>2 \<le> r" "r < (2 powi (e + 1))\<^sup>2"
    and "q = 2 powi (max e emin - int p + 1)"
    and "((of_int n - 1 / 2) * q)\<^sup>2 < r" "r < ((of_int n + 1 / 2) * q)\<^sup>2" "0 < n"
  shows "rnd p emin (sqrt r) = of_int n * q"
proof (rule rnd_eval[OF _ _ assms(3)])
  have r0: "0 \<le> r" using assms(1) by (meson order_trans zero_le_power2)
  have s0: "0 \<le> sqrt r" using r0 by simp
  have q0: "0 < q" by (simp add: assms(3))
  show "2 powi e \<le> \<bar>sqrt r\<bar>" using real_le_rsqrt[OF assms(1)] by simp
  have "sqrt r < 2 powi (e + 1)"
    by (rule real_less_lsqrt[OF _ assms(2)]) simp
  then show "\<bar>sqrt r\<bar> < 2 powi (e + 1)" using s0 by simp
  have lo: "(of_int n - 1 / 2) * q < sqrt r" by (rule real_less_rsqrt[OF assms(4)])
  have "0 \<le> (of_int n + 1 / 2) * q" using assms(6) q0 by simp
  then have hi: "sqrt r < (of_int n + 1 / 2) * q" using assms(5) by (intro real_less_lsqrt) simp_all
  have "of_int n - 1 / 2 < sqrt r / q" "sqrt r / q < of_int n + 1 / 2"
    using lo hi q0 by (simp_all add: pos_less_divide_eq pos_divide_less_eq)
  then show "\<bar>sqrt r / q - of_int n\<bar> < 1 / 2" by linarith
qed

lemma f64_hundredth: "f64 (1 / 100) = 5764607523034235 / 2 ^ 59"
proof -
  have "rnd 53 (- 1022) (1 / 100) = of_int 5764607523034235 * 2 powi (- 59)"
    by (rule rnd_eval[where e = "- 7"]) (simp_all add: power_int_minus)
  then show ?thesis by (simp add: f64_def power_int_minus field_simps)
qed

lemma f64_sqrt_hundredth: "f64 (sqrt (5764607523034235 / 2 ^ 59)) = 3602879701896397 / 2 ^ 55"
proof -
  have "rnd 53 (- 1022) (sqrt (5764607523034235 / 2 ^ 59)) = of_int 7205759403792794 * 2 powi (- 56)"
    by (rule rnd_sqrt_eval[where e = "- 4"]) (simp_all add: power_int_minus power2_eq_square)
  then show ?thesis by (simp add: f64_def power_int_minus field_simps)
qed

lemma f32_tenth: "f32 (3602879701896397 / 2 ^ 55) = 13421773 / 2 ^ 27"
proof -
  have "rnd 24 (- 126) (3602879701896397 / 2 ^ 55) = of_int 13421773 * 2 powi (- 27)"
    by (rule rnd_eval[where e = "- 4"]) (simp_all add: power_int_minus)
  then show ?thesis by (simp add: f32_def power_int_minus field_simps)
qed

lemma f64_0 [simp]: "f64 0 = 0"
  by (simp add: f64_def)

lemma f32_0 [simp]: "f32 0 = 0"
  by (simp add: f32_def)

lemma f64_nonneg: "0 \<le> x \<Longrightarrow> 0 \<le> f64 x"
  by (simp add: f64_def rnd_nonneg)

lemma f32_nonneg: "0 \<le> x \<Longrightarrow> 0 \<le> f32 x"
  by (simp add: f32_def rnd_nonneg)

lemma f32_mono: "x \<le> y \<Longrightarrow> f32 x \<le> f32 y"
  by (simp add: f32_def rnd_mono)

lemma f32_minus: "f32 (- x) = - f32 x"
  by (simp add: f32_def rnd_minus)

lemma f32_idem [simp]: "f32 (f32 x) = f32 x"
  by (simp add: f32_def rnd_idem)

lemma f32_double: "f32 (2 * f32 x) = 2 * f32 x"
  unfolding f32_def
  by (rule rnd_representable, rule representable_double, rule representable_rnd) simp

text \<open>The kernel of \<^verbatim>\<open>uniform_\<close> between symmetric bounds stays between the cast bounds.\<close>

lemma uniform_value_range:
  assumes "0 \<le> u" "u \<le> 1" "0 \<le> k"
  shows "- f32 k \<le> uniform_value (f32 (- k)) (f32 k) u"
    and "uniform_value (f32 (- k)) (f32 k) u \<le> f32 k"
proof -
  define b where "b = f32 k"
  have b0: "0 \<le> b" unfolding b_def by (rule f32_nonneg[OF assms(3)])
  have d: "f32 (2 * b) = 2 * b" using f32_double[of k] by (simp add: b_def)
  have "0 \<le> u * (2 * b)" using assms(1) b0 by simp
  from f32_nonneg[OF this] have lo: "0 \<le> f32 (u * (2 * b))" .
  have "u * (2 * b) \<le> 1 * (2 * b)" using assms(2) b0 by (intro mult_right_mono) simp_all
  from f32_mono[OF this] have hi: "f32 (u * (2 * b)) \<le> 2 * b" using f32_double[of k] by (simp add: b_def)
  have e: "uniform_value (f32 (- k)) (f32 k) u = f32 (f32 (u * (2 * b)) + - b)"
    by (simp add: uniform_value_def f32_minus b_def[symmetric] d)
  have "f32 (- b) \<le> f32 (f32 (u * (2 * b)) + - b)" using lo by (intro f32_mono) simp
  then show "- f32 k \<le> uniform_value (f32 (- k)) (f32 k) u"
    unfolding e by (simp add: f32_minus b_def)
  have "f32 (f32 (u * (2 * b)) + - b) \<le> f32 b" using hi by (intro f32_mono) simp
  then show "uniform_value (f32 (- k)) (f32 k) u \<le> f32 k"
    unfolding e by (simp add: b_def)
qed

lemma uniform_value_0: "uniform_value (f32 a) hi 0 = f32 a"
  by (simp add: uniform_value_def)

section \<open>Running actions\<close>

lemma returnsI: "m w = (Inr v, w') \<Longrightarrow> Q v w' \<Longrightarrow> returns m w Q"
  by (simp add: returns_def)

lemma returnsD: "returns m w Q \<Longrightarrow> \<exists>v w'. m w = (Inr v, w') \<and> Q v w'"
  by (auto simp: returns_def split: prod.splits sum.splits)

lemma returns_ret: "Q v w \<Longrightarrow> returns (ret v) w Q"
  by (simp add: returns_def ret_def)

lemma returns_seq: "returns m w (\<lambda>v w'. returns (f v) w' Q) \<Longrightarrow> returns (seq m f) w Q"
  by (auto simp: returns_def seq_def split: prod.splits sum.splits)

lemma returns_mono: "returns m w P \<Longrightarrow> (\<And>v w'. P v w' \<Longrightarrow> Q v w') \<Longrightarrow> returns m w Q"
  by (auto simp: returns_def split: prod.splits sum.splits)

lemma seq_Inr: "m w = (Inr v, w') \<Longrightarrow> seq m f w = f v w'"
  by (simp add: seq_def)

lemma seq_Inl: "m w = (Inl e, w') \<Longrightarrow> seq m f w = (Inl e, w')"
  by (simp add: seq_def)

lemma preserves_refl: "preserves w w"
  by (simp add: preserves_def)

lemma preserves_trans: "preserves w w' \<Longrightarrow> preserves w' w'' \<Longrightarrow> preserves w w''"
proof -
  assume a: "preserves w w'" and b: "preserves w' w''"
  have l: "length (heap w) \<le> length (heap w')" and l': "length (heap w') \<le> length (heap w'')"
    using a b by (simp_all add: preserves_def)
  have "take (length (heap w)) (heap w'') = take (length (heap w)) (take (length (heap w')) (heap w''))"
    using l by (simp add: min_def)
  also have "\<dots> = heap w"
    using a b by (simp add: preserves_def)
  finally show ?thesis
    using a b l l' by (simp add: preserves_def)
qed

lemma preserves_rng: "preserves w (w\<lparr>rng_pos := k\<rparr>)"
  by (simp add: preserves_def)

lemma preserves_new_tensor: "new_tensor sh d vals w = (Inr t, w') \<Longrightarrow> preserves w w'"
  by (auto simp: new_tensor_def preserves_def)

lemma returns_seq_eq: "returns (seq m f) w Q = returns m w (\<lambda>v w'. returns (f v) w' Q)"
  by (auto simp: returns_def seq_def split: prod.splits sum.splits)

lemma returns_ret_eq: "returns (ret v) w Q = Q v w"
  by (simp add: returns_def ret_def)

lemma returns_raise_eq: "returns (raise e) w Q = False"
  by (simp add: returns_def raise_def)

lemma returns_bind:
  assumes "returns m w P" and "\<And>v w'. P v w' \<Longrightarrow> returns (f v) w' Q"
  shows "returns (seq m f) w Q"
  unfolding returns_seq_eq by (rule returns_mono[OF assms(1)]) (rule assms(2))

lemma same_env_refl: "same_env w w" by (simp add: same_env_def)

lemma same_env_trans: "same_env w w' \<Longrightarrow> same_env w' w'' \<Longrightarrow> same_env w w''" by (simp add: same_env_def)

lemma returns_new_tensor: "returns (new_tensor sh d vals) w Q =
   Q \<lparr>storage = length (heap w), offset = 0, shape = sh, strides = cstrides sh, device = d\<rparr> (w\<lparr>heap := heap w @ [vals]\<rparr>)"
  by (simp add: returns_def new_tensor_def)

lemma returns_init_uniform: "returns (init_uniform t a b) w Q =
   (a \<le> b \<and> Q () (w\<lparr>heap := write_vals t (map (\<lambda>j. uniform_value (f32 a) (f32 b) (draws w (rng_pos w + j)))
                                              [0..<numel t]) (heap w),
              rng_pos := rng_pos w + numel t\<rparr>))"
  by (auto simp add: returns_def init_uniform_def)

lemma length_write_vals [simp]: "length (write_vals t vals H) = length H"
  by (simp add: write_vals_def)

lemma new_parameter_ok:
  "0 \<le> k \<Longrightarrow> returns (new_parameter sh k) w (\<lambda>t w'. shape t = sh \<and> device t = CPU \<and> same_env w w')"
  by (simp add: new_parameter_def returns_seq_eq returns_new_tensor returns_init_uniform returns_ret_eq same_env_def)

lemma Linear_init_ok:
  assumes "0 \<le> n_in" "0 \<le> n_out"
  shows "returns (Linear_init n_in n_out) w (\<lambda>l w'. linear_ok CPU l \<and> in_features l = nat n_in
           \<and> out_features l = nat n_out \<and> same_env w w')"
proof -
  define k where "k = (if n_in = 0 then 0 else 1 / sqrt (real_of_int n_in))"
  have k: "0 \<le> k" using assms by (simp add: k_def)
  have eq: "Linear_init n_in n_out =
        seq (new_parameter [nat n_out, nat n_in] k) (\<lambda>wt.
        seq (new_parameter [nat n_out] k) (\<lambda>bs.
        ret \<lparr>in_features = nat n_in, out_features = nat n_out, weight = wt, bias = bs\<rparr>))"
    using assms by (simp add: Linear_init_def k_def Let_def)
  show ?thesis
    unfolding eq
    apply (rule returns_bind[OF new_parameter_ok[OF k]])
    apply (rule returns_bind[OF new_parameter_ok[OF k]])
    apply (simp add: returns_ret_eq linear_ok_def same_env_def)
    done
qed

lemma comprehension_ok:
  assumes "\<And>a. R a a" and "\<And>a b c. R a b \<Longrightarrow> R b c \<Longrightarrow> R a c"
    and "\<And>i w. i \<in> set xs \<Longrightarrow> returns (f i) w (\<lambda>v w'. P i v \<and> R w w')"
  shows "returns (comprehension xs f) w (\<lambda>vs w'. list_all2 P xs vs \<and> R w w')"
  using assms(3)
proof (induction xs arbitrary: w)
  case Nil
  then show ?case by (simp add: returns_ret_eq assms(1))
next
  case (Cons i xs)
  show ?case
    apply simp
    apply (rule returns_bind[OF Cons.prems[of i]])
     apply simp
    apply (rule returns_bind[OF Cons.IH])
     apply (simp add: Cons.prems)
    apply (auto simp add: returns_ret_eq intro: assms(2))
    done
qed

lemma for_each_ok:
  assumes "\<And>a. R a a" and "\<And>a b c. R a b \<Longrightarrow> R b c \<Longrightarrow> R a c"
    and "\<And>i s w. i \<in> set xs \<Longrightarrow> Inv s \<Longrightarrow> returns (body i s) w (\<lambda>s' w'. Inv s' \<and> R w w')"
    and "Inv s"
  shows "returns (for_each xs body s) w (\<lambda>s' w'. Inv s' \<and> R w w')"
  using assms(3,4)
proof (induction xs arbitrary: w s)
  case Nil
  then show ?case by (simp add: returns_ret_eq assms(1))
next
  case (Cons i xs)
  show ?case
    apply simp
    apply (rule returns_bind[OF Cons.prems(1)[of i s w]])
      apply simp
     apply (rule Cons.prems(2))
    apply (rule returns_mono[OF Cons.IH])
      apply (simp add: Cons.prems(1))
     apply simp
    apply (auto intro: assms(2))
    done
qed

lemma LSTM_layer_init_ok:
  "returns (LSTM_layer_init isz hsz) w
     (\<lambda>l w'. list_all (\<lambda>t. device t = CPU) [weight_ih l, weight_hh l, bias_ih l, bias_hh l] \<and> same_env w w')"
proof -
  have k: "0 \<le> 1 / sqrt (real hsz)" by simp
  show ?thesis
    unfolding LSTM_layer_init_def Let_def
    apply (rule returns_bind[OF new_parameter_ok[OF k]])
    apply (rule returns_bind[OF new_parameter_ok[OF k]])
    apply (rule returns_bind[OF new_parameter_ok[OF k]])
    apply (rule returns_bind[OF new_parameter_ok[OF k]])
    apply (simp add: returns_ret_eq same_env_def)
    done
qed

lemma list_all2_const: "list_all2 (\<lambda>i. Q) xs ys \<Longrightarrow> list_all Q ys"
  by (induction rule: list_all2_induct) auto

lemma LSTM_init_ok:
  assumes "0 < hidden_sz" "0 < num_layers" "0 \<le> input_size"
  shows "returns (LSTM_init input_size hidden_sz num_layers) w
     (\<lambda>m w'. lstm_input_size m = nat input_size \<and> lstm_hidden_size m = nat hidden_sz
        \<and> length (lstm_layers m) = nat num_layers
        \<and> list_all (\<lambda>t. device t = CPU) (concat (all_weights m)) \<and> same_env w w')"
proof -
  have eq: "LSTM_init input_size hidden_sz num_layers =
      seq (comprehension [0..<nat num_layers]
                  (\<lambda>l. LSTM_layer_init (if l = 0 then nat input_size else nat hidden_sz) (nat hidden_sz)))
             (\<lambda>ls. ret \<lparr>lstm_input_size = nat input_size, lstm_hidden_size = nat hidden_sz,
                         lstm_layers = ls\<rparr>)"
    using assms by (simp add: LSTM_init_def)
  show ?thesis
    unfolding eq
    apply (rule returns_bind[OF comprehension_ok[where R = same_env and
              P = "\<lambda>i l. list_all (\<lambda>t. device t = CPU) [weight_ih l, weight_hh l, bias_ih l, bias_hh l]"]])
       apply (rule same_env_refl)
      apply (erule (1) same_env_trans)
     apply (rule LSTM_layer_init_ok)
    apply (clarsimp simp add: returns_ret_eq all_weights_def)
    apply (frule list_all2_lengthD)
    apply (drule list_all2_const)
    apply (simp add: list_all_iff)
    done
qed

lemma dense_comprehension_ok:
  assumes "list_all (\<lambda>n. 0 \<le> n) df"
  shows "returns (comprehension [1..<length df] (\<lambda>i. Linear_init (df ! (i - 1)) (df ! i))) w
     (\<lambda>ls w'. list_all2 (\<lambda>i l. linear_ok CPU l \<and> in_features l = nat (df ! (i - 1))
                           \<and> out_features l = nat (df ! i)) [1..<length df] ls \<and> same_env w w')"
  apply (rule comprehension_ok[where R = same_env])
    apply (rule same_env_refl)
   apply (erule (1) same_env_trans)
  apply (rule returns_mono[OF Linear_init_ok])
  using assms apply (auto simp add: list_all_length)
  done

lemma chain_from_list_all2:
  "list_all2 (\<lambda>i l. P l \<and> in_features l = nat (df ! (i - 1)) \<and> out_features l = nat (df ! i))
      [1..<length df] ls \<Longrightarrow> df \<noteq> [] \<Longrightarrow> chain_ok (map nat df) ls \<and> list_all P ls"
proof (induction df arbitrary: ls)
  case Nil
  then show ?case by simp
next
  case (Cons a df)
  show ?case
  proof (cases df)
    case Nil
    with Cons.prems show ?thesis by simp
  next
    case (Cons b r)
    have up: "[1..<length (a # df)] = 1 # map Suc [1..<length df]"
      using Cons by (simp add: upt_conv_Cons map_Suc_upt del: upt_Suc)
    from Cons.prems(1) obtain l ls' where ls: "ls = l # ls'"
      and l: "P l" "in_features l = nat a" "out_features l = nat (df ! 0)"
      and rest: "list_all2 (\<lambda>i l. P l \<and> in_features l = nat ((a # df) ! (i - 1)) \<and> out_features l = nat ((a # df) ! i))
                   (map Suc [1..<length df]) ls'"
      unfolding up by (auto simp: list_all2_Cons1)
    have "list_all2 (\<lambda>i l. P l \<and> in_features l = nat (df ! (i - 1)) \<and> out_features l = nat (df ! i))
                   [1..<length df] ls'"
      using rest unfolding list_all2_map1
      by (rule list.rel_mono_strong) (auto simp: nth_Cons')
    from Cons.IH[OF this] Cons have "chain_ok (map nat df) ls' \<and> list_all P ls'" by simp
    then show ?thesis using l ls Cons by simp
  qed
qed

lemma returns_init_constant: "returns (init_constant t v) w Q =
   Q () (w\<lparr>heap := write_vals t (replicate (numel t) (f32 v)) (heap w)\<rparr>)"
  by (simp add: returns_def init_constant_def)

lemma init_uniform_ok: "a \<le> b \<Longrightarrow> returns (init_uniform t a b) w (\<lambda>u w'. same_env w w')"
  by (simp add: returns_init_uniform same_env_def)

lemma init_kaiming_uniform_ok:
  "2 \<le> length (shape t) \<Longrightarrow> returns (init_kaiming_uniform t) w (\<lambda>u w'. same_env w w')"
  by (simp add: init_kaiming_uniform_def Let_def returns_ret_eq returns_init_uniform same_env_def
      f64_nonneg)

lemma initialize_weights_ok:
  assumes "0 < hidden_size self" "list_all (linear_ok d) (dense_layers self)"
  shows "returns (initialize_weights self) w (\<lambda>u w'. same_env w w')"
proof -
  define sqrt_k where "sqrt_k = f64 (sqrt (f64 (1 / real_of_int (hidden_size self))))"
  have h0: "0 \<le> f64 (1 / real_of_int (hidden_size self))" using assms(1) by (simp add: f64_nonneg)
  have "0 \<le> sqrt_k" unfolding sqrt_k_def using h0 by (intro f64_nonneg) simp
  then have k: "- sqrt_k \<le> sqrt_k" by simp
  have eq: "initialize_weights self =
        seq (for_each (all_weights (rnn self))
               (\<lambda>parameters u. for_each parameters (\<lambda>pam u. init_uniform pam (- sqrt_k) sqrt_k) ()) ())
          (\<lambda>u. for_each (dense_layers self)
               (\<lambda>dense_layer u. seq (init_kaiming_uniform (weight dense_layer))
                                    (\<lambda>u. init_constant (bias dense_layer) 0)) ())"
    using assms(1) h0 by (simp add: initialize_weights_def sqrt_k_def Let_def not_less)
  have inner: "returns (for_each ps (\<lambda>pam u. init_uniform pam (- sqrt_k) sqrt_k) ()) w1 (\<lambda>u w'. True \<and> same_env w1 w')"
    for ps w1
    apply (rule for_each_ok[where R = same_env and Inv = "\<lambda>u. True"])
       apply (rule same_env_refl)
      apply (erule (1) same_env_trans)
     apply (simp add: init_uniform_ok[OF k])
    apply simp
    done
  have outer: "returns (for_each (all_weights (rnn self))
               (\<lambda>parameters u. for_each parameters (\<lambda>pam u. init_uniform pam (- sqrt_k) sqrt_k) ()) ()) w
               (\<lambda>u w'. True \<and> same_env w w')"
    apply (rule for_each_ok[where R = same_env and Inv = "\<lambda>u. True"])
       apply (rule same_env_refl)
      apply (erule (1) same_env_trans)
     apply (rule inner)
    apply simp
    done
  have dense: "returns (for_each (dense_layers self)
               (\<lambda>dense_layer u. seq (init_kaiming_uniform (weight dense_layer))
                                    (\<lambda>u. init_constant (bias dense_layer) 0)) ()) w1
               (\<lambda>u w'. True \<and> same_env w1 w')" for w1
    apply (rule for_each_ok[where R = same_env and Inv = "\<lambda>u. True"])
       apply (rule same_env_refl)
      apply (erule (1) same_env_trans)
     apply (rule returns_bind[OF init_kaiming_uniform_ok])
    using assms(2) apply (simp add: list_all_iff linear_ok_def)
     apply (simp add: returns_init_constant same_env_def)
    apply simp
    done
  show ?thesis
    unfolding eq
    apply (rule returns_bind[OF outer])
    apply (rule returns_mono[OF dense])
    apply (auto intro: same_env_trans)
    done
qed

lemma returns_list_new: "returns (list_new xs) w Q =
    Q (pyfresh w) (w\<lparr>pylists := (pylists w)(pyfresh w := xs), pyfresh := Suc (pyfresh w)\<rparr>)"
  by (simp add: returns_def list_new_def)

lemma returns_list_get: "returns (list_get a) w Q = Q (pylists w a) w"
  by (simp add: returns_def list_get_def)

lemma returns_list_insert0: "returns (list_insert0 a v) w Q =
    Q () (w\<lparr>pylists := (pylists w)(a := v # pylists w a)\<rparr>)"
  by (simp add: returns_def list_insert0_def)

lemma returns_list_add0: "returns (list_add0 a v) w Q =
    (case pylists w a of [] \<Rightarrow> False | x # xs \<Rightarrow> Q () (w\<lparr>pylists := (pylists w)(a := (x + v) # xs)\<rparr>))"
  by (simp add: returns_def list_add0_def split: list.splits)

lemma Dropout_init_ok: "0 \<le> pr \<Longrightarrow> pr \<le> 1 \<Longrightarrow>
   returns (Dropout_init pr) w (\<lambda>m w'. m = \<lparr>drop_p = pr, training = True\<rparr> \<and> w' = w)"
  by (simp add: Dropout_init_def returns_ret_eq)

text \<open>The constructor from the point where the list object has been updated.\<close>

lemma RNNet_init_tail_ok:
  assumes h: "0 < hidden_sz" and i: "0 \<le> input_size"
    and p: "0 \<le> rnn_dropout" "rnn_dropout \<le> 1"
    and df: "pylists w a = df" "list_all (\<lambda>n. 0 \<le> n) df" "df \<noteq> []"
      "hd df = hidden_sz + (if add_yl then 3 else 0)"
  shows "returns
     (seq (Dropout_init rnn_dropout) (\<lambda>drop.
      seq (LSTM_init input_size hidden_sz 1) (\<lambda>lstm.
      seq (list_get a) (\<lambda>df.
      seq (comprehension [1..<length df] (\<lambda>i. Linear_init (df ! (i - 1)) (df ! i))) (\<lambda>layers.
      seq (initialize_weights \<lparr>add_year_loc = add_yl, dropout = drop, rnn = lstm,
                               hidden_size = hidden_sz, dense_layers = layers\<rparr>) (\<lambda>u.
      ret \<lparr>add_year_loc = add_yl, dropout = drop, rnn = lstm,
           hidden_size = hidden_sz, dense_layers = layers\<rparr>)))))) w
     (\<lambda>net w'. net_ok CPU (map nat df) net \<and> add_year_loc net = add_yl
        \<and> length (dense_layers net) = length df - 1
        \<and> lstm_input_size (rnn net) = nat input_size \<and> hidden_size net = hidden_sz
        \<and> dropout net = \<lparr>drop_p = rnn_dropout, training = True\<rparr> \<and> same_env w w')"
  apply (rule returns_bind[OF Dropout_init_ok[OF p]])
  apply (rule returns_bind[OF LSTM_init_ok[OF h _ i]])
   apply simp
  apply (simp only: returns_seq_eq[of "list_get a"] returns_list_get)
  apply (rule returns_bind[OF dense_comprehension_ok[of "pylists w' a" for w']])
  subgoal for drop w1 lstm w2
    using df by (simp add: same_env_def)
  subgoal premises prems for drop w1 lstm w2 layers w3
  proof -
    have e: "pylists w2 a = df" "same_env w w3"
      using prems df by (auto simp: same_env_def)
    have "list_all2 (\<lambda>i l. linear_ok CPU l \<and> in_features l = nat (df ! (i - 1))
             \<and> out_features l = nat (df ! i)) [1..<length df] layers"
      using prems(3) e by simp
    from chain_from_list_all2[OF this df(3)] list_all2_lengthD[OF this]
    have c: "chain_ok (map nat df) layers" "list_all (linear_ok CPU) layers"
      "length layers = length df - 1" by simp_all
    show ?thesis
      apply (rule returns_bind[OF initialize_weights_ok[where d = CPU]])
        apply (simp add: h)
       apply (simp add: c)
      using prems c e df h
      apply (cases df)
       apply (auto simp add: returns_ret_eq net_ok_def same_env_def)
      done
  qed
  done

lemma list_insert0_ok:
  "returns (list_insert0 a v) w (\<lambda>u w'. w' = w\<lparr>pylists := (pylists w)(a := v # pylists w a)\<rparr>)"
  by (simp add: returns_list_insert0)

lemma RNNet_init_ok:
  assumes h: "0 < hidden_sz" and i: "0 \<le> in_channels * num_bins"
    and p: "0 \<le> rnn_dropout" "rnn_dropout \<le> 1"
    and dfl: "dfl = (case dense_features of None \<Rightarrow> [256, 1] | Some a \<Rightarrow> pylists w a)"
      "list_all (\<lambda>n. 0 \<le> n) dfl"
    and a0: "a0 = (case dense_features of None \<Rightarrow> pyfresh w | Some a \<Rightarrow> a)"
    and df: "df = (hidden_sz + (if add_yl then 3 else 0)) # dfl"
  shows "returns (RNNet_init in_channels num_bins hidden_sz 1 rnn_dropout dense_features add_yl) w
     (\<lambda>net w'. net_ok CPU (map nat df) net \<and> add_year_loc net = add_yl
        \<and> length (dense_layers net) = length dfl
        \<and> lstm_input_size (rnn net) = nat (in_channels * num_bins) \<and> hidden_size net = hidden_sz
        \<and> dropout net = \<lparr>drop_p = rnn_dropout, training = True\<rparr>
        \<and> pylists w' = (pylists w)(a0 := df)
        \<and> pyfresh w' = (case dense_features of None \<Rightarrow> Suc (pyfresh w) | Some a \<Rightarrow> pyfresh w)
        \<and> draws w' = draws w \<and> cuda_current w' = cuda_current w
        \<and> length (heap w) \<le> length (heap w'))"
proof -
  define pf where "pf = (case dense_features of None \<Rightarrow> Suc (pyfresh w) | Some a \<Rightarrow> pyfresh w)"
  have nn: "list_all (\<lambda>n. 0 \<le> n) df" "df \<noteq> []" "hd df = hidden_sz + (if add_yl then 3 else 0)"
    using dfl(2) h by (simp_all add: df)
  have s1: "returns (case dense_features of None \<Rightarrow> list_new [256, 1] | Some a \<Rightarrow> ret a) w
      (\<lambda>a w1. a = a0 \<and> pylists w1 = (pylists w)(a0 := dfl) \<and> pyfresh w1 = pf
          \<and> draws w1 = draws w \<and> cuda_current w1 = cuda_current w \<and> heap w1 = heap w)"
    by (cases dense_features) (simp_all add: returns_list_new returns_ret_eq a0 dfl pf_def)
  show ?thesis
    unfolding RNNet_init_def pf_def[symmetric]
    apply (rule returns_bind[OF s1])
    apply (rule returns_bind[OF list_insert0_ok])
    apply (rule returns_bind[where P = "\<lambda>u w3. pylists w3 = (pylists w)(a0 := df) \<and> pyfresh w3 = pf
          \<and> draws w3 = draws w \<and> cuda_current w3 = cuda_current w \<and> heap w3 = heap w"])
     apply (simp add: returns_list_add0 returns_ret_eq df)
    apply (rule returns_mono[OF RNNet_init_tail_ok[OF h i p _ nn]])
     apply simp
    apply (auto simp: same_env_def df)
    done
qed

lemma RNNModel_init_ok:
  assumes h: "0 < hidden_sz" and i: "0 \<le> in_channels * num_bins"
    and p: "0 \<le> rnn_dropout" "rnn_dropout \<le> 1"
    and dfl: "dfl = (case dense_features of None \<Rightarrow> [256, 1] | Some a \<Rightarrow> pylists w a)"
      "list_all (\<lambda>n. 0 \<le> n) dfl"
    and n: "n = (case dense_features of None \<Rightarrow> 2 | Some a \<Rightarrow> int (length dfl) + 1)"
  shows "returns (RNNModel_init in_channels num_bins hidden_sz rnn_dropout dense_features add_yl) w
     (\<lambda>m w'. length (dense_layers (model m)) = length dfl
        \<and> model_weight m = ''dense_layers.'' @ str_int (n - 1) @ ''.weight''
        \<and> model_bias m = ''dense_layers.'' @ str_int (n - 1) @ ''.bias'')"
  unfolding RNNModel_init_def
  apply (rule returns_bind[OF RNNet_init_ok[OF h i p dfl refl refl]])
  apply (cases dense_features)
   apply (simp_all add: returns_seq_eq returns_ret_eq returns_list_get n dfl)
  done

section \<open>The factory's parameter names\<close>

text \<open>
  Claim C1. The factory names the final dense layer \<^verbatim>\<open>dense_layers.{n-1}\<close> with \<open>n\<close> the
  length of the list it was given. It takes the length after \<^verbatim>\<open>RNNet.__init__\<close> has inserted
  the hidden size into that same list object, so for a caller's list \<^verbatim>\<open>[256, 1]\<close> the names
  carry the index 2 while the network has the two layers 0 and 1: the named layer does not
  exist.
\<close>

theorem C1_supplied_list_names_missing_layer:
  "map_sum id (\<lambda>m. (model_weight m, model_bias m, length (dense_layers (model m))))
     (fst (RNNModel_init 9 32 128 (3 / 4) (Some 0) False caller_world))
   = Inr (''dense_layers.2.weight'', ''dense_layers.2.bias'', 2)"
proof -
  have "returns (RNNModel_init 9 32 128 (3 / 4) (Some 0) False) caller_world
     (\<lambda>m w'. length (dense_layers (model m)) = length [256, 1 :: int]
        \<and> model_weight m = ''dense_layers.'' @ str_int (3 - 1) @ ''.weight''
        \<and> model_bias m = ''dense_layers.'' @ str_int (3 - 1) @ ''.bias'')"
    by (rule RNNModel_init_ok) (simp_all add: caller_world_def)
  then show ?thesis
    by (auto dest!: returnsD simp: str_int_def str_nat.simps[of 2])
qed

lemma contiguous_from_append:
  "contiguous_from z (xs @ ys) = (contiguous_from z xs \<and> contiguous_from (z * prod_list (map fst xs)) ys)"
  by (induction z xs rule: contiguous_from.induct) (auto simp: mult.assoc)

lemma length_cstrides [simp]: "length (cstrides ns) = length ns"
  by (induction ns) auto

lemma prod_list_rev_nat: "prod_list (rev xs) = prod_list (xs :: nat list)"
  by (induction xs) (simp_all add: mult.commute)

lemma prod_fst_rev_zip: "prod_list (map fst (rev (zip ns (cstrides ns)))) = prod_list ns"
  by (simp add: rev_map[symmetric] prod_list_rev_nat)

lemma contiguous_from_cstrides:
  "0 \<notin> set ns \<Longrightarrow> contiguous_from 1 (rev (zip ns (cstrides ns)))"
proof (induction ns)
  case Nil
  then show ?case by simp
next
  case (Cons n ns)
  have "max 1 m = m" if "m \<in> set ns" for m
  proof -
    have "m \<noteq> 0"
    proof
      assume "m = 0"
      with that Cons.prems show False by simp
    qed
    then show ?thesis by (simp add: max_def)
  qed
  then have "map (max 1) ns = ns" by (simp add: map_idI)
  then show ?case using Cons by (simp add: contiguous_from_append prod_fst_rev_zip)
qed

lemma is_contiguous_fresh:
  "strides t = cstrides (shape t) \<Longrightarrow> is_contiguous t"
  unfolding is_contiguous_def numel_def
  using contiguous_from_cstrides[of "shape t"] by (auto simp: prod_list_zero_iff)

lemma returns_permute: "returns (permute_0213 t) w Q =
   (length (shape t) = 4 \<and> length (strides t) = 4 \<and>
    Q (t\<lparr>shape := [shape t ! 0, shape t ! 2, shape t ! 1, shape t ! 3],
         strides := [strides t ! 0, strides t ! 2, strides t ! 1, strides t ! 3]\<rparr>) w)"
  by (auto simp add: permute_0213_def returns_ret_eq returns_raise_eq)

lemma contiguous_ok:
  "returns (contiguous t) w (\<lambda>t' w'. shape t' = shape t \<and> device t' = device t \<and> is_contiguous t'
      \<and> preserves w w' \<and> rng_pos w' = rng_pos w)"
  by (simp add: contiguous_def returns_def ret_def new_tensor_def preserves_def is_contiguous_fresh)

lemma returns_view: "returns (view t sizes) w Q =
   (is_contiguous t \<and> prod_list sizes = numel t \<and> Q (t\<lparr>shape := sizes, strides := cstrides sizes\<rparr>) w)"
  by (auto simp add: view_def returns_ret_eq returns_raise_eq)

lemma reshape_input_ok:
  assumes "shape x = [B, C, T, N]" "length (strides x) = 4"
  shows "returns (reshape_input x) w (\<lambda>x' w'. shape x' = [B, T, C * N] \<and> length (strides x') = 3
      \<and> device x' = device x \<and> preserves w w' \<and> rng_pos w' = rng_pos w)"
  unfolding reshape_input_def
  apply (simp add: returns_seq_eq returns_permute assms)
  apply (rule returns_mono[OF contiguous_ok])
  apply (simp add: returns_view numel_def assms)
  done

lemma returns_cuda: "returns (cuda t) w Q =
   (if device t = CUDA (cuda_current w) then Q t w
    else Q \<lparr>storage = length (heap w), offset = 0, shape = shape t, strides = cstrides (shape t),
            device = CUDA (cuda_current w)\<rparr> (w\<lparr>heap := heap w @ [tvals (heap w) t]\<rparr>))"
  by (simp add: returns_def cuda_def ret_def new_tensor_def)

lemma returns_torch_zeros: "returns (torch_zeros sizes) w Q =
   (list_all (\<lambda>n. 0 \<le> n) sizes \<and>
    Q \<lparr>storage = length (heap w), offset = 0, shape = map nat sizes, strides = cstrides (map nat sizes),
            device = CPU\<rparr> (w\<lparr>heap := heap w @ [replicate (prod_list (map nat sizes)) 0]\<rparr>))"
  by (cases "list_ex (\<lambda>n. n < 0) sizes")
     (force simp add: torch_zeros_def returns_raise_eq returns_new_tensor list_ex_iff list_all_iff)+

lemma init_states_ok:
  assumes "hidden_size self = int H"
  shows "returns (init_states self x) w (\<lambda>(h, c) w'.
      shape h = [1, shape x ! 0, H] \<and> shape c = [1, shape x ! 0, H]
      \<and> length (strides h) = 3 \<and> length (strides c) = 3
      \<and> device h = (if is_cuda x then CUDA (cuda_current w) else CPU)
      \<and> device c = (if is_cuda x then CUDA (cuda_current w) else CPU)
      \<and> preserves w w' \<and> rng_pos w' = rng_pos w)"
  by (simp add: init_states_def returns_seq_eq returns_torch_zeros returns_ret_eq
      returns_cuda preserves_def assms)

lemma LSTM_forward_ok:
  assumes "shape x = [B, L, lstm_input_size m]"
    and "shape h0 = [length (lstm_layers m), B, lstm_hidden_size m]"
    and "shape c0 = [length (lstm_layers m), B, lstm_hidden_size m]"
    and "device h0 = device x" "device c0 = device x"
    and "list_all (\<lambda>t. device t = device x) (concat (all_weights m))"
  shows "returns (LSTM_forward m x (h0, c0)) w (\<lambda>(out, h_n, c_n) w'.
      shape h_n = [length (lstm_layers m), B, lstm_hidden_size m]
      \<and> shape c_n = [length (lstm_layers m), B, lstm_hidden_size m]
      \<and> length (strides h_n) = 3 \<and> length (strides c_n) = 3
      \<and> device h_n = device x \<and> device c_n = device x
      \<and> preserves w w' \<and> rng_pos w' = rng_pos w)"
  using assms
  by (simp add: LSTM_forward_def Let_def returns_def seq_def new_tensor_def ret_def preserves_def)

lemma Dropout_forward_ok:
  "returns (Dropout_forward m t) w (\<lambda>t' w'. shape t' = shape t \<and> device t' = device t
      \<and> (length (strides t) = length (shape t) \<longrightarrow> length (strides t') = length (shape t))
      \<and> preserves w w')"
  by (simp add: Dropout_forward_def returns_def ret_def new_tensor_def preserves_def)

lemma returns_select_1: "returns (select_1 t i) w Q =
   (length (shape t) = 3 \<and> length (strides t) = 3 \<and> i < shape t ! 1 \<and>
    Q (t\<lparr>offset := offset t + i * (strides t ! 1), shape := [shape t ! 0, shape t ! 2],
         strides := [strides t ! 0, strides t ! 2]\<rparr>) w)"
  by (auto simp add: select_1_def returns_ret_eq returns_raise_eq)

lemma unsqueeze_1_ok:
  "shape t = n # ns \<Longrightarrow> length (strides t) = length (shape t) \<Longrightarrow>
   returns (unsqueeze_1 t) w (\<lambda>t' w'. shape t' = n # 1 # ns \<and> length (strides t') = length (shape t')
      \<and> device t' = device t \<and> storage t' = storage t \<and> offset t' = offset t \<and> w' = w)"
  by (cases "strides t") (auto simp add: unsqueeze_1_def returns_ret_eq)

lemma timestep_ok:
  assumes net: "length (lstm_layers (rnn self)) = 1"
      "list_all (\<lambda>t. device t = d) (concat (all_weights (rnn self)))"
    and x: "shape x = [B, T, lstm_input_size (rnn self)]" "length (strides x) = 3" "device x = d" "i < T"
    and st: "state_ok d B (lstm_hidden_size (rnn self)) s"
  shows "returns (timestep self x i s) w
      (\<lambda>s' w'. state_ok d B (lstm_hidden_size (rnn self)) s' \<and> preserves w w')"
proof -
  obtain h c where s: "s = (h, c)" by (cases s)
  show ?thesis
    unfolding timestep_def s
    apply (simp add: returns_seq_eq[of "select_1 x i"] returns_select_1 x)
    apply (rule returns_bind[OF unsqueeze_1_ok])
      apply simp
     apply simp
    apply (rule returns_bind[OF LSTM_forward_ok[where B = B and L = 1]])
    using st net x apply (simp_all add: s state_ok_def)
    apply clarify
    apply (rule returns_bind[OF Dropout_forward_ok])
    apply (auto simp add: returns_ret_eq intro: preserves_trans)
    done
qed

lemma recurrence_ok:
  assumes net: "length (lstm_layers (rnn self)) = 1"
      "list_all (\<lambda>t. device t = d) (concat (all_weights (rnn self)))"
    and x: "shape x = [B, T, lstm_input_size (rnn self)]" "length (strides x) = 3" "device x = d"
    and st: "state_ok d B (lstm_hidden_size (rnn self)) s"
  shows "returns (recurrence self x s) w
      (\<lambda>s' w'. state_ok d B (lstm_hidden_size (rnn self)) s' \<and> preserves w w')"
  unfolding recurrence_def
  apply (rule for_each_ok[where R = preserves])
     apply (rule preserves_refl)
    apply (erule (1) preserves_trans)
   apply (rule timestep_ok[OF net x(1,2,3)])
    apply (simp add: x)
   apply assumption
  apply (rule st)
  done

lemma recurrent_features_ok:
  assumes net: "net_ok d widths self"
    and x: "shape x = [B, C, T, N]" "length (strides x) = 4" "C * N = lstm_input_size (rnn self)"
      "device x = d" "d = CPU \<or> d = CUDA (cuda_current w)"
  shows "returns (recurrent_features self x) w
      (\<lambda>v w'. shape v = [B, lstm_hidden_size (rnn self)] \<and> length (strides v) = 2 \<and> device v = d
          \<and> preserves w w')"
proof -
  have n: "length (lstm_layers (rnn self)) = 1"
      "list_all (\<lambda>t. device t = d) (concat (all_weights (rnn self)))"
      "hidden_size self = int (lstm_hidden_size (rnn self))"
    using net by (simp_all add: net_ok_def)
  show ?thesis
    unfolding recurrent_features_def
    apply (rule returns_bind[OF reshape_input_ok[OF x(1,2)]])
    apply (rule returns_bind[OF init_states_ok[OF n(3)]])
    apply (rule returns_bind[OF recurrence_ok[OF n(1,2), where B = B and T = T]])
    subgoal using x by simp
    subgoal by simp
    subgoal using x by simp
    subgoal using x by (auto simp: state_ok_def is_cuda_def preserves_def split: device.splits)
    subgoal for x' w1 st w2 st' w3
      apply (cases st')
      apply (auto simp add: returns_ret_eq state_ok_def squeeze_0_def split: list.splits
          intro: preserves_trans)
      done
    done
qed

lemma action_cases:
  obtains (raises) e w' where "m w = (Inl e, w')" | (returns) v w' where "m w = (Inr v, w')"
proof (cases "m w")
  case (Pair r w')
  then show ?thesis using that by (cases r) auto
qed

lemma run_layers_Nil: "run_layers [] x = ret x"
  by (simp add: run_layers_def)

lemma run_layers_Cons: "run_layers (l # ls) x = seq (Linear_forward l x) (run_layers ls)"
  by (simp add: run_layers_def fun_eq_iff)

lemma for_each_append: "for_each (xs @ ys) body s w = seq (for_each xs body s) (for_each ys body) w"
proof (induction xs arbitrary: s w)
  case Nil
  then show ?case by (simp add: seq_def ret_def)
next
  case (Cons i xs)
  show ?case
    by (cases rule: action_cases[of "body i s" w])
       (simp_all add: seq_def Cons.IH)
qed

lemma run_layers_snoc: "run_layers (ls @ [l]) x w = seq (run_layers ls x) (Linear_forward l) w"
  unfolding run_layers_def for_each_append
  by (simp add: seq_def ret_def split: prod.splits sum.splits)

lemma Linear_forward_ok:
  assumes "linear_ok d l" "shape x = [B, in_features l]" "device x = d"
  shows "returns (Linear_forward l x) w (\<lambda>y w'. shape y = [B, out_features l] \<and> device y = d
      \<and> preserves w w')"
  using assms
  by (simp add: Linear_forward_def returns_def new_tensor_def raise_def preserves_def linear_ok_def)

lemma run_layers_ok:
  assumes "chain_ok (a # r) ls" "list_all (linear_ok d) ls" "shape x = [B, a]" "device x = d"
  shows "returns (run_layers ls x) w (\<lambda>y w'. shape y = [B, last (a # r)] \<and> device y = d
      \<and> preserves w w')"
  using assms
proof (induction ls arbitrary: a r x w)
  case Nil
  then show ?case by (cases r) (simp_all add: run_layers_Nil returns_ret_eq preserves_refl)
next
  case (Cons l ls)
  then obtain b r' where r: "r = b # r'" by (cases r) auto
  from Cons.prems r have l: "linear_ok d l" "in_features l = a" "out_features l = b"
    "chain_ok (b # r') ls" "list_all (linear_ok d) ls" by simp_all
  show ?case
    unfolding run_layers_Cons
    apply (rule returns_bind[OF Linear_forward_ok[OF l(1), where B = B]])
      apply (simp add: Cons.prems l)
     apply (rule Cons.prems)
    apply (rule returns_mono[OF Cons.IH[OF l(4,5)]])
      apply (simp add: l)
     apply simp
    apply (auto simp: r intro: preserves_trans)
    done
qed

lemma dense_loop_no_capture:
  assumes "\<And>j. k \<le> j \<Longrightarrow> j < k + length ls \<Longrightarrow>
       \<not> (rld \<and> int j = int (length (dense_layers self)) - 2)"
  shows "for_each (enumerate k ls) (dense_step self rld) (x, out) w =
     (case run_layers ls x w of
        (Inl e, w') \<Rightarrow> (Inl e, w')
      | (Inr y, w') \<Rightarrow> (Inr (y, out), w'))"
  using assms
proof (induction ls arbitrary: k x w)
  case Nil
  then show ?case by (simp add: run_layers_Nil ret_def)
next
  case (Cons l ls)
  have c: "\<not> (rld \<and> int k = int (length (dense_layers self)) - 2)"
    using Cons.prems[of k] by simp
  have step: "dense_step self rld (k, l) (x, out) = seq (Linear_forward l x) (\<lambda>x. ret (x, out))"
    by (simp only: dense_step_def prod.case if_not_P[OF c])
  have IH: "for_each (enumerate (Suc k) ls) (dense_step self rld) (x', out) w' =
     (case run_layers ls x' w' of
        (Inl e, w') \<Rightarrow> (Inl e, w')
      | (Inr y, w') \<Rightarrow> (Inr (y, out), w'))" for x' w'
    by (rule Cons.IH) (use Cons.prems in simp)
  show ?case
    by (cases rule: action_cases[of "Linear_forward l x" w])
       (simp_all add: step run_layers_Cons seq_def ret_def IH)
qed

lemma dense_loop_capture:
  assumes "ls \<noteq> []" "k + length ls + 1 = length (dense_layers self)"
  shows "for_each (enumerate k ls) (dense_step self True) (x, out) w =
     (case run_layers ls x w of
        (Inl e, w') \<Rightarrow> (Inl e, w')
      | (Inr y, w') \<Rightarrow> (Inr (y, Some y), w'))"
  using assms
proof (induction ls arbitrary: k x out w)
  case Nil
  then show ?case by simp
next
  case (Cons l ls)
  show ?case
  proof (cases ls)
    case Nil
    have step: "dense_step self True (k, l) (x, out) = seq (Linear_forward l x) (\<lambda>x. ret (x, Some x))"
      using Cons.prems Nil by (simp add: dense_step_def)
    show ?thesis
      by (cases rule: action_cases[of "Linear_forward l x" w])
         (simp_all add: Nil step run_layers_Cons run_layers_Nil seq_def ret_def)
  next
    case (Cons l' ls')
    have IH: "for_each (enumerate (Suc k) ls) (dense_step self True) (x', out') w' =
       (case run_layers ls x' w' of
          (Inl e, w') \<Rightarrow> (Inl e, w')
        | (Inr y, w') \<Rightarrow> (Inr (y, Some y), w'))" for x' out' w'
      by (rule Cons.IH) (use Cons Cons.prems in simp_all)
    have step: "dense_step self True (k, l) (x, out) =
        seq (Linear_forward l x)
          (\<lambda>x. ret (x, if int k = int (length (dense_layers self)) - 2 then Some x else out))"
      by (simp add: dense_step_def)
    show ?thesis
      by (cases rule: action_cases[of "Linear_forward l x" w])
         (simp_all add: step run_layers_Cons seq_def ret_def IH)
  qed
qed

lemma dense_stack_plain:
  "dense_stack self False x w =
     (case run_layers (dense_layers self) x w of
        (Inl e, w') \<Rightarrow> (Inl e, w')
      | (Inr y, w') \<Rightarrow> (Inr (y, None), w'))"
  unfolding dense_stack_def by (rule dense_loop_no_capture) simp

lemma dense_stack_single:
  assumes "length (dense_layers self) \<le> 1"
  shows "dense_stack self True x w =
     (case run_layers (dense_layers self) x w of
        (Inl e, w') \<Rightarrow> (Inl e, w')
      | (Inr y, w') \<Rightarrow> (Inr (y, None), w'))"
  unfolding dense_stack_def by (rule dense_loop_no_capture) (use assms in simp)

lemma dense_stack_capture:
  assumes "2 \<le> length (dense_layers self)"
  shows "dense_stack self True x w =
     (case run_layers (butlast (dense_layers self)) x w of
        (Inl e, w') \<Rightarrow> (Inl e, w')
      | (Inr f, w1) \<Rightarrow>
          (case Linear_forward (last (dense_layers self)) f w1 of
             (Inl e, w') \<Rightarrow> (Inl e, w')
           | (Inr y, w2) \<Rightarrow> (Inr (y, Some f), w2)))"
proof -
  define ls where "ls = butlast (dense_layers self)"
  define l where "l = last (dense_layers self)"
  have ne: "dense_layers self \<noteq> []" using assms by auto
  have d: "dense_layers self = ls @ [l]"
    using ne by (simp add: ls_def l_def)
  have "length ls = length (dense_layers self) - 1" by (simp add: ls_def)
  then have n: "ls \<noteq> []" "0 + length ls + 1 = length (dense_layers self)"
    using assms by auto
  have e: "enumerate 0 (dense_layers self) = enumerate 0 ls @ [(length ls, l)]"
    by (simp add: d enumerate_append_eq)
  have last_step: "seq (dense_step self True (length ls, l) (f, Some f))
          (for_each [] (dense_step self True)) w1 =
      (case Linear_forward l f w1 of
         (Inl e, w') \<Rightarrow> (Inl e, w')
       | (Inr y, w2) \<Rightarrow> (Inr (y, Some f), w2))" for f w1
    by (cases rule: action_cases[of "Linear_forward l f" w1])
       (simp_all add: dense_step_def d seq_def ret_def)
  show ?thesis
    unfolding dense_stack_def e for_each_append ls_def[symmetric] l_def[symmetric]
    by (cases rule: action_cases[of "run_layers ls x" w])
       (simp_all add: seq_def dense_loop_capture[OF n] last_step[unfolded seq_def])
qed

lemma cat_1_ok:
  assumes "shape a = [B, m]" "shape b = [B, n]" "device b = device a"
  shows "returns (cat_1 a b) w (\<lambda>t w'. shape t = [B, m + n] \<and> device t = device a
      \<and> preserves w w')"
  using assms
  by (simp add: cat_1_def returns_def new_tensor_def raise_def preserves_def)

lemma augment_ok:
  assumes "shape v = [B, H]" "device v = d"
    and "add_year_loc self \<Longrightarrow> valid_year_loc d B years locations"
  shows "returns (augment self v years locations) w
      (\<lambda>f w'. shape f = [B, H + (if add_year_loc self then 3 else 0)] \<and> device f = d
          \<and> preserves w w')"
proof (cases "add_year_loc self")
  case False
  then show ?thesis by (simp add: augment_def returns_ret_eq assms preserves_refl)
next
  case True
  from assms(3)[OF True] obtain ys locs where yl: "years = Some ys" "locations = Some locs"
    "shape ys = [B]" "length (strides ys) = 1" "device ys = d" "shape locs = [B, 2]" "device locs = d"
    by (auto simp: valid_year_loc_def split: option.splits)
  show ?thesis
    unfolding augment_def yl
    apply (simp add: True)
    apply (rule returns_bind[OF unsqueeze_1_ok[where n = B and ns = "[]"]])
      apply (simp add: yl)
     apply (simp add: yl)
    apply (rule returns_bind[OF cat_1_ok[where B = B and m = 1 and n = 2]])
       apply simp
      apply (simp add: yl)
     apply (simp add: yl)
    apply (rule returns_mono[OF cat_1_ok[where B = B and m = H and n = 3]])
       apply (simp add: assms)
      apply simp
     apply (simp add: assms yl)
    apply (auto simp: assms intro: preserves_trans)
    done
qed

lemma features_ok:
  assumes net: "net_ok d widths self"
    and x: "shape x = [B, C, T, N]" "length (strides x) = 4" "C * N = lstm_input_size (rnn self)"
      "device x = d" "d = CPU \<or> d = CUDA (cuda_current w)"
    and yl: "add_year_loc self \<Longrightarrow> valid_year_loc d B years locations"
  shows "returns (features self x years locations) w
      (\<lambda>v w'. shape v = [B, hd widths] \<and> device v = d \<and> preserves w w')"
proof -
  have hd: "hd widths = lstm_hidden_size (rnn self) + (if add_year_loc self then 3 else 0)"
    using net by (cases widths) (simp_all add: net_ok_def)
  show ?thesis
    unfolding features_def
    apply (rule returns_bind[OF recurrent_features_ok[OF net x]])
    apply (rule returns_mono[OF augment_ok[where B = B and d = d]])
       apply simp
      apply simp
     apply (erule yl)
    apply (auto simp: hd intro: preserves_trans)
    done
qed

lemma forward_plain_eq:
  "forward self x years locations False w =
     (case features self x years locations w of
        (Inl e, w') \<Rightarrow> (Inl e, w')
      | (Inr v, w1) \<Rightarrow>
          (case run_layers (dense_layers self) v w1 of
             (Inl e, w') \<Rightarrow> (Inl e, w')
           | (Inr y, w2) \<Rightarrow> (Inr (Output y), w2)))"
proof (cases rule: action_cases[of "features self x years locations" w])
  case (raises e w')
  then show ?thesis by (simp add: forward_def seq_def)
next
  case (returns v w1)
  then show ?thesis
    by (cases rule: action_cases[of "run_layers (dense_layers self) v" w1])
       (simp_all add: forward_def seq_def dense_stack_plain ret_def)
qed

lemma forward_single_eq:
  assumes "length (dense_layers self) \<le> 1"
  shows "forward self x years locations True w =
     (case features self x years locations w of
        (Inl e, w') \<Rightarrow> (Inl e, w')
      | (Inr v, w1) \<Rightarrow>
          (case run_layers (dense_layers self) v w1 of
             (Inl e, w') \<Rightarrow> (Inl e, w')
           | (Inr y, w2) \<Rightarrow> (Inl UnboundLocalError, w2)))"
proof (cases rule: action_cases[of "features self x years locations" w])
  case (raises e w')
  then show ?thesis by (simp add: forward_def seq_def)
next
  case (returns v w1)
  then show ?thesis
    by (cases rule: action_cases[of "run_layers (dense_layers self) v" w1])
       (simp_all add: forward_def seq_def dense_stack_single[OF assms] raise_def)
qed

lemma forward_capture_eq:
  assumes "2 \<le> length (dense_layers self)"
  shows "forward self x years locations True w =
     (case features self x years locations w of
        (Inl e, w') \<Rightarrow> (Inl e, w')
      | (Inr v, w1) \<Rightarrow>
          (case run_layers (butlast (dense_layers self)) v w1 of
             (Inl e, w') \<Rightarrow> (Inl e, w')
           | (Inr f, w2) \<Rightarrow>
               (case Linear_forward (last (dense_layers self)) f w2 of
                  (Inl e, w') \<Rightarrow> (Inl e, w')
                | (Inr y, w3) \<Rightarrow> (Inr (OutputAndFeatures y f), w3))))"
proof (cases rule: action_cases[of "features self x years locations" w])
  case (raises e w')
  then show ?thesis by (simp add: forward_def seq_def)
next
  case (returns v w1)
  note v = this
  show ?thesis
  proof (cases rule: action_cases[of "run_layers (butlast (dense_layers self)) v" w1])
    case (raises e w')
    then show ?thesis using v by (simp add: forward_def seq_def dense_stack_capture[OF assms])
  next
    case (returns f w2)
    then show ?thesis using v
      by (cases rule: action_cases[of "Linear_forward (last (dense_layers self)) f" w2])
         (simp_all add: forward_def seq_def dense_stack_capture[OF assms] ret_def)
  qed
qed

lemma chain_ok_nth:
  "chain_ok widths ls \<Longrightarrow> length widths = length ls + 1 \<and>
     (\<forall>i < length ls. in_features (ls ! i) = widths ! i \<and> out_features (ls ! i) = widths ! (i + 1))"
proof (induction widths ls rule: chain_ok.induct)
  case (2 a b r l ls)
  then show ?case by (auto simp: nth_Cons')
qed simp_all

lemma chain_ok_butlast:
  "chain_ok widths ls \<Longrightarrow> ls \<noteq> [] \<Longrightarrow> chain_ok (butlast widths) (butlast ls)"
proof (induction widths ls rule: chain_ok.induct)
  case (2 a b r l ls)
  then show ?case by (cases ls; cases r) auto
qed simp_all

lemma example_net_init:
  "RNNet_init 1 1 2 1 (1 / 4) None False example_world = (Inr example_net, example_net_world)"
  "net_ok CPU [2, 256, 1] example_net" "\<not> add_year_loc example_net"
  "length (dense_layers example_net) = 2" "lstm_input_size (rnn example_net) = 1"
  "cuda_current example_net_world = 0" "3 \<le> length (heap example_net_world)"
proof -
  have "returns (RNNet_init 1 1 2 1 (1 / 4) None False) example_world
     (\<lambda>net w'. net_ok CPU (map nat [2, 256, 1]) net \<and> add_year_loc net = False
        \<and> length (dense_layers net) = length [256, 1 :: int]
        \<and> lstm_input_size (rnn net) = nat (1 * 1) \<and> hidden_size net = 2
        \<and> dropout net = \<lparr>drop_p = 1 / 4, training = True\<rparr>
        \<and> pylists w' = (pylists example_world)(pyfresh example_world := [2, 256, 1])
        \<and> pyfresh w' = (case None :: nat option of None \<Rightarrow> Suc (pyfresh example_world) | Some a \<Rightarrow> pyfresh example_world)
        \<and> draws w' = draws example_world \<and> cuda_current w' = cuda_current example_world
        \<and> length (heap example_world) \<le> length (heap w'))"
    by (rule RNNet_init_ok) simp_all
  from returnsD[OF this] obtain net w' where
    r: "RNNet_init 1 1 2 1 (1 / 4) None False example_world = (Inr net, w')"
    and p: "net_ok CPU [2, 256, 1] net" "\<not> add_year_loc net" "length (dense_layers net) = 2"
      "lstm_input_size (rnn net) = 1" "cuda_current w' = 0" "3 \<le> length (heap w')"
    by (auto simp: example_world_def)
  have "example_net = net" "example_net_world = w'"
    by (simp_all add: example_net_def example_net_world_def r)
  with r p show
    "RNNet_init 1 1 2 1 (1 / 4) None False example_world = (Inr example_net, example_net_world)"
    "net_ok CPU [2, 256, 1] example_net" "\<not> add_year_loc example_net"
    "length (dense_layers example_net) = 2" "lstm_input_size (rnn example_net) = 1"
    "cuda_current example_net_world = 0" "3 \<le> length (heap example_net_world)"
    by simp_all
qed

lemma single_layer_net_init:
  "RNNet_init 1 1 2 1 (1 / 4) (Some 0) False single_layer_world
      = (Inr single_layer_net, single_layer_net_world)"
  "net_ok CPU [2, 1] single_layer_net" "\<not> add_year_loc single_layer_net"
  "length (dense_layers single_layer_net) = 1" "lstm_input_size (rnn single_layer_net) = 1"
  "cuda_current single_layer_net_world = 0"
proof -
  have "returns (RNNet_init 1 1 2 1 (1 / 4) (Some 0) False) single_layer_world
     (\<lambda>net w'. net_ok CPU (map nat [2, 1]) net \<and> add_year_loc net = False
        \<and> length (dense_layers net) = length [1 :: int]
        \<and> lstm_input_size (rnn net) = nat (1 * 1) \<and> hidden_size net = 2
        \<and> dropout net = \<lparr>drop_p = 1 / 4, training = True\<rparr>
        \<and> pylists w' = (pylists single_layer_world)(0 := [2, 1])
        \<and> pyfresh w' = (case Some (0 :: nat) of None \<Rightarrow> Suc (pyfresh single_layer_world) | Some a \<Rightarrow> pyfresh single_layer_world)
        \<and> draws w' = draws single_layer_world \<and> cuda_current w' = cuda_current single_layer_world
        \<and> length (heap single_layer_world) \<le> length (heap w'))"
    by (rule RNNet_init_ok) (simp_all add: single_layer_world_def)
  from returnsD[OF this] obtain net w' where
    r: "RNNet_init 1 1 2 1 (1 / 4) (Some 0) False single_layer_world = (Inr net, w')"
    and p: "net_ok CPU [2, 1] net" "\<not> add_year_loc net" "length (dense_layers net) = 1"
      "lstm_input_size (rnn net) = 1" "cuda_current w' = 0"
    by (auto simp: single_layer_world_def example_world_def)
  have "single_layer_net = net" "single_layer_net_world = w'"
    by (simp_all add: single_layer_net_def single_layer_net_world_def r)
  with r p show
    "RNNet_init 1 1 2 1 (1 / 4) (Some 0) False single_layer_world
      = (Inr single_layer_net, single_layer_net_world)"
    "net_ok CPU [2, 1] single_layer_net" "\<not> add_year_loc single_layer_net"
    "length (dense_layers single_layer_net) = 1" "lstm_input_size (rnn single_layer_net) = 1"
    "cuda_current single_layer_net_world = 0"
    by simp_all
qed

lemma forward_plain_ok:
  assumes "net_ok d widths self" and "shape x = [B, C, T, N]" "length (strides x) = 4"
    and "C * N = lstm_input_size (rnn self)"
    and "device x = d" "d = CPU \<or> d = CUDA (cuda_current w)"
    and yl: "add_year_loc self \<Longrightarrow> valid_year_loc d B years locations"
  shows "\<exists>y w'. forward self x years locations False w = (Inr (Output y), w')
            \<and> shape y = [B, last widths] \<and> device y = d \<and> preserves w w'"
proof -
  from returnsD[OF features_ok[OF assms]] obtain v w1 where
    v: "features self x years locations w = (Inr v, w1)" "shape v = [B, hd widths]" "device v = d"
       "preserves w w1"
    by auto
  from assms(1) obtain a r where wd: "widths = a # r" by (cases widths) (auto simp: net_ok_def)
  have c: "chain_ok (a # r) (dense_layers self)" "list_all (linear_ok d) (dense_layers self)"
    using assms(1) by (auto simp add: net_ok_def wd)
  from returnsD[OF run_layers_ok[OF c, of v B w1]] v obtain y w2 where
    y: "run_layers (dense_layers self) v w1 = (Inr y, w2)" "shape y = [B, last (a # r)]"
      "device y = d" "preserves w1 w2"
    by (auto simp: wd)
  show ?thesis
    using v y by (auto simp add: forward_plain_eq wd intro: preserves_trans)
qed

lemma example_x_simps:
  "shape example_x = [1, 1, 3, 1]" "length (strides example_x) = 4" "device example_x = CPU"
  by (simp_all add: example_x_def)

section \<open>The shape of the output\<close>

text \<open>
  Claim C6. For a network as the constructor makes it (one recurrent layer, the dense layers
  following the width list \<open>widths\<close>, every parameter on device \<open>d\<close>) with augmentation
  disabled, and an input batch \<open>[B, C, T, N]\<close> on that device whose bands and bins give the
  recurrent layer's input size: \<open>forward\<close> without \<open>return_last_dense\<close> returns one tensor, of
  shape \<open>[B, last widths]\<close>.
\<close>

theorem C6_forward_output_shape:
  assumes "net_ok d widths self" and "\<not> add_year_loc self"
    and "shape x = [B, C, T, N]" and "length (strides x) = 4"
    and "C * N = lstm_input_size (rnn self)"
    and "device x = d" and "d = CPU \<or> d = CUDA (cuda_current w)"
  shows "\<exists>y w'. forward self x years locations False w = (Inr (Output y), w')
            \<and> shape y = [B, last widths]"
proof -
  have "\<exists>y w'. forward self x years locations False w = (Inr (Output y), w')
            \<and> shape y = [B, last widths] \<and> device y = d \<and> preserves w w'"
    by (rule forward_plain_ok[OF assms(1,3,4,5,6,7)]) (simp add: assms(2))
  then show ?thesis by blast
qed

theorem C6_forward_output_shape_witness:
  "net_ok CPU [2, 256, 1] example_net \<and> \<not> add_year_loc example_net
   \<and> shape example_x = [1, 1, 3, 1] \<and> length (strides example_x) = 4
   \<and> 1 * 1 = lstm_input_size (rnn example_net) \<and> device example_x = CPU
   \<and> (\<exists>y w'. forward example_net example_x None None False example_net_world = (Inr (Output y), w')
            \<and> shape y = [1, 1])"
proof -
  note n = example_net_init and x = example_x_simps
  have i: "1 * 1 = lstm_input_size (rnn example_net)" by (simp add: n)
  have d: "CPU = CPU \<or> CPU = CUDA (cuda_current example_net_world)" by simp
  from C6_forward_output_shape[OF n(2) n(3) x(1) x(2) i x(3) d, of None None]
  show ?thesis using n(2,3) x i by simp
qed

section \<open>A single dense layer and \<open>return_last_dense\<close>\<close>

text \<open>
  Claim C2. In the scenario's configuration (one band, one bin, hidden size 2, the dense
  widths \<^verbatim>\<open>[1]\<close>, one example of three time steps, no augmentation) the constructor returns a
  network, and \<open>forward\<close> returns a tensor of shape \<open>[1, 1]\<close>. With \<open>return_last_dense\<close> the
  call does not return the pair the claim describes: the only layer has index 0, the
  capture of line 146 waits for index \<open>1 - 2\<close>, and line 148 reads the unbound local.
\<close>

theorem C2_single_layer_unbound_output:
  "fst (RNNet_init 1 1 2 1 (1 / 4) (Some 0) False single_layer_world) = Inr single_layer_net
   \<and> map_sum id result_shapes
        (fst (forward single_layer_net example_x None None False single_layer_net_world))
      = Inr [[1, 1]]
   \<and> fst (forward single_layer_net example_x None None True single_layer_net_world)
      = Inl UnboundLocalError"
proof -
  note n = single_layer_net_init
  have x: "1 * 1 = lstm_input_size (rnn single_layer_net)"
    "CPU = CPU \<or> CPU = CUDA (cuda_current single_layer_net_world)"
    by (simp_all add: n)
  have yl: "add_year_loc single_layer_net \<Longrightarrow> valid_year_loc CPU 1 None None"
    by (simp add: n)
  from forward_plain_ok[OF n(2) example_x_simps(1,2) x(1) example_x_simps(3) x(2) yl]
  have a: "map_sum id result_shapes
        (fst (forward single_layer_net example_x None None False single_layer_net_world))
      = Inr [[1, 1]]"
    by auto
  from returnsD[OF features_ok[OF n(2) example_x_simps(1,2) x(1) example_x_simps(3) x(2) yl]]
  obtain v w1 where v: "features single_layer_net example_x None None single_layer_net_world = (Inr v, w1)"
    "shape v = [1, 2]" "device v = CPU"
    by auto
  have c: "chain_ok [2, 1] (dense_layers single_layer_net)"
    "list_all (linear_ok CPU) (dense_layers single_layer_net)"
    using n(2) by (simp_all add: net_ok_def)
  from returnsD[OF run_layers_ok[OF c v(2,3), of w1]] obtain y w2 where
    y: "run_layers (dense_layers single_layer_net) v w1 = (Inr y, w2)"
    by auto
  have b: "fst (forward single_layer_net example_x None None True single_layer_net_world)
      = Inl UnboundLocalError"
    using v y by (simp add: forward_single_eq n)
  show ?thesis using a b by (simp add: n)
qed

section \<open>The captured feature vector\<close>

text \<open>
  Claim C5. For a network with at least two dense layers and a valid call, \<open>forward\<close> with
  \<open>return_last_dense\<close> returns a pair \<open>(y, f)\<close>: \<open>f\<close> is the tensor the dense layers but the
  last return on the features, so the output of the second-to-last layer; \<open>y\<close> is what the
  last layer returns on \<open>f\<close>; and the last dimension of \<open>f\<close> is the second-to-last layer's
  output width.
\<close>

theorem C5_return_last_dense_pair:
  assumes "net_ok d widths self" and "2 \<le> length (dense_layers self)"
    and "shape x = [B, C, T, N]" and "length (strides x) = 4"
    and "C * N = lstm_input_size (rnn self)"
    and "device x = d" and "d = CPU \<or> d = CUDA (cuda_current w)"
    and "add_year_loc self \<Longrightarrow> valid_year_loc d B years locations"
  shows "\<exists>v w1 f w2 y w3.
      features self x years locations w = (Inr v, w1)
      \<and> run_layers (butlast (dense_layers self)) v w1 = (Inr f, w2)
      \<and> Linear_forward (last (dense_layers self)) f w2 = (Inr y, w3)
      \<and> forward self x years locations True w = (Inr (OutputAndFeatures y f), w3)
      \<and> last (shape f) = out_features (dense_layers self ! (length (dense_layers self) - 2))"
proof -
  define ls where "ls = dense_layers self"
  from returnsD[OF features_ok[OF assms(1,3,4,5,6,7,8)]] obtain v w1 where
    v: "features self x years locations w = (Inr v, w1)" "shape v = [B, hd widths]" "device v = d"
    by auto
  have c: "chain_ok widths ls" "list_all (linear_ok d) ls" "ls \<noteq> []" "2 \<le> length ls"
    using assms(1,2) by (auto simp add: net_ok_def ls_def)
  from chain_ok_nth[OF c(1)] have len: "length widths = length ls + 1"
    and nth: "\<And>i. i < length ls \<Longrightarrow> in_features (ls ! i) = widths ! i
          \<and> out_features (ls ! i) = widths ! (i + 1)"
    by auto
  obtain a r where wd: "butlast widths = a # r" "hd widths = a"
    using len c(4) by (cases widths; cases "tl widths") auto
  have cb: "chain_ok (a # r) (butlast ls)" "list_all (linear_ok d) (butlast ls)"
    using chain_ok_butlast[OF c(1,3)] c(2) by (auto simp: wd list_all_iff dest: in_set_butlastD)
  from returnsD[OF run_layers_ok[OF cb, of v B w1]] v wd obtain f w2 where
    f: "run_layers (butlast ls) v w1 = (Inr f, w2)" "shape f = [B, last (a # r)]" "device f = d"
    by auto
  have bne: "butlast widths \<noteq> []" using wd by simp
  have "last (butlast widths) = butlast widths ! (length (butlast widths) - 1)"
    by (rule last_conv_nth[OF bne])
  also have "\<dots> = widths ! (length ls - 1)"
    using len c(4) by (simp add: nth_butlast)
  finally have la: "last (a # r) = widths ! (length ls - 1)"
    by (simp add: wd)
  have ix: "length ls - 2 + 1 = length ls - 1" "length ls - 2 < length ls"
    using c(4) by arith+
  have l1: "out_features (ls ! (length ls - 2)) = widths ! (length ls - 1)"
    using nth[OF ix(2)] by (simp only: ix(1))
  have l2: "in_features (last ls) = widths ! (length ls - 1)"
    using nth[of "length ls - 1"] c(3,4) by (simp add: last_conv_nth)
  have lo: "linear_ok d (last ls)" using c(2,3) by (simp add: list_all_iff)
  from returnsD[OF Linear_forward_ok[OF lo, of f B w2]] f l2 la obtain y w3 where
    y: "Linear_forward (last ls) f w2 = (Inr y, w3)"
    by auto
  show ?thesis
    using v f y la l1 by (simp add: forward_capture_eq[OF assms(2)] ls_def[symmetric])
qed

theorem C5_return_last_dense_pair_witness:
  "net_ok CPU [2, 256, 1] example_net \<and> 2 \<le> length (dense_layers example_net)
   \<and> shape example_x = [1, 1, 3, 1] \<and> length (strides example_x) = 4
   \<and> 1 * 1 = lstm_input_size (rnn example_net) \<and> device example_x = CPU
   \<and> \<not> add_year_loc example_net
   \<and> (\<exists>v w1 f w2 y w3.
      features example_net example_x None None example_net_world = (Inr v, w1)
      \<and> run_layers (butlast (dense_layers example_net)) v w1 = (Inr f, w2)
      \<and> Linear_forward (last (dense_layers example_net)) f w2 = (Inr y, w3)
      \<and> forward example_net example_x None None True example_net_world
            = (Inr (OutputAndFeatures y f), w3)
      \<and> last (shape f) = out_features (dense_layers example_net ! (length (dense_layers example_net) - 2)))"
proof -
  note n = example_net_init and x = example_x_simps
  have i: "1 * 1 = lstm_input_size (rnn example_net)" by (simp add: n)
  have d: "CPU = CPU \<or> CPU = CUDA (cuda_current example_net_world)" by simp
  have l: "2 \<le> length (dense_layers example_net)" by (simp add: n)
  have yl: "add_year_loc example_net \<Longrightarrow> valid_year_loc CPU 1 None None" by (simp add: n)
  from C5_return_last_dense_pair[OF n(2) l x(1) x(2) i x(3) d yl]
  show ?thesis using n(2,3) l x i by simp
qed

lemma length_concat_const:
  "(\<And>x. x \<in> set xs \<Longrightarrow> length (f x) = k) \<Longrightarrow> length (concat (map f xs)) = length xs * k"
  by (induction xs) simp_all

lemma length_offsets [simp]: "length (offsets ns ss) = prod_list ns"
proof (induction ns ss rule: offsets.induct)
  case (1 ss)
  then show ?case by simp
next
  case (2 n ns)
  show ?case
  proof (cases "n = 0")
    case True
    then show ?thesis by simp
  next
    case False
    then have "length (offsets ns []) = prod_list ns" using 2[of 0] by simp
    then show ?thesis by (simp add: length_concat_const)
  qed
next
  case (3 n ns s ss)
  show ?case
  proof (cases "n = 0")
    case True
    then show ?thesis by simp
  next
    case False
    then have "length (offsets ns ss) = prod_list ns" using 3[of 0] by simp
    then show ?thesis by (simp add: length_concat_const)
  qed
qed

lemma length_tvals [simp]: "length (tvals H t) = numel t"
  by (simp add: tvals_def numel_def)

lemma concat_blocks: "concat (map (\<lambda>i. map (\<lambda>k. i * m + k) [0..<m]) [0..<n]) = [0..<n * m]"
proof (induction n)
  case 0
  then show ?case by simp
next
  case (Suc n)
  have a: "map (\<lambda>k. n * m + k) [0..<m] = [n * m..<n * m + m]"
    using map_add_upt[of "n * m" m] by (simp add: add.commute)
  have b: "[0..<n * m + m] = [0..<n * m] @ [n * m..<n * m + m]"
    by (rule upt_add_eq_append) simp
  define f where "f = (\<lambda>i. map (\<lambda>k. i * m + k) [0..<m])"
  have "concat (map f [0..<Suc n]) = concat (map f [0..<n]) @ f n" by simp
  also have "\<dots> = [0..<n * m] @ [n * m..<n * m + m]"
    using Suc a by (simp only: f_def)
  also have "\<dots> = [0..<n * m + m]" by (simp only: b)
  also have "n * m + m = Suc n * m" by simp
  finally show ?case by (simp only: f_def)
qed

lemma offsets_cstrides: "offsets ns (cstrides ns) = [0..<prod_list ns]"
proof (induction ns)
  case Nil
  then show ?case by simp
next
  case (Cons n ns)
  show ?case
  proof (cases "prod_list ns = 0")
    case True
    then show ?thesis using Cons by simp
  next
    case False
    then have "0 \<notin> set ns" by (simp add: prod_list_zero_iff)
    then have "max 1 m = m" if "m \<in> set ns" for m
      using that by (cases m) auto
    then have "map (max 1) ns = ns" by (simp add: map_idI)
    then show ?thesis using Cons by (simp add: concat_blocks)
  qed
qed

lemma tvals_fresh:
  assumes "storage t = length H" "offset t = 0" "strides t = cstrides (shape t)"
    "length vals = numel t"
  shows "tvals (H @ [vals]) t = vals"
proof -
  have "tvals (H @ [vals]) t = map ((!) vals) [0..<length vals]"
    using assms by (simp add: tvals_def offsets_cstrides numel_def)
  then show ?thesis by (simp add: map_nth)
qed

lemma tvals_preserved:
  assumes "preserves w w'" "storage t < length (heap w)"
  shows "tvals (heap w') t = tvals (heap w) t"
proof -
  have "heap w' ! storage t = take (length (heap w)) (heap w') ! storage t"
    using assms by simp
  also have "\<dots> = heap w ! storage t" using assms by (simp add: preserves_def)
  finally show ?thesis by (simp add: tvals_def)
qed

lemma chunks_Suc: "chunks (Suc n) k ys = take k ys # chunks n k (drop k ys)"
proof -
  have "[0..<Suc n] = 0 # map Suc [0..<n]"
    by (simp add: upt_conv_Cons map_Suc_upt del: upt_Suc)
  then show ?thesis
    by (simp add: chunks_def comp_def add.commute del: upt_Suc)
qed

lemma chunks_0 [simp]: "chunks 0 k ys = []"
  by (simp add: chunks_def)

lemma chunks_concat:
  assumes "\<And>xs. xs \<in> set xss \<Longrightarrow> length xs = k"
  shows "chunks (length xss) k (concat xss) = xss"
  using assms by (induction xss) (simp_all add: chunks_Suc)

lemma length_chunks [simp]: "length (chunks n k ys) = n"
  by (simp add: chunks_def)

lemma seq_InrD:
  "seq m f w = (Inr r, w') \<Longrightarrow> \<exists>v w1. m w = (Inr v, w1) \<and> f v w1 = (Inr r, w')"
  by (cases rule: action_cases[of m w]) (simp_all add: seq_def)

lemma for_each_inv:
  assumes "\<And>i s w s' w'. i \<in> set xs \<Longrightarrow> body i s w = (Inr s', w') \<Longrightarrow> I s w \<Longrightarrow> I s' w'"
    and "for_each xs body s w = (Inr s', w')" and "I s w"
  shows "I s' w'"
  using assms
proof (induction xs arbitrary: s w)
  case Nil
  then show ?case by (simp add: ret_def)
next
  case (Cons i xs)
  from seq_InrD[OF Cons.prems(2)[simplified]] obtain s1 w1 where
    a: "body i s w = (Inr s1, w1)" and b: "for_each xs body s1 w1 = (Inr s', w')"
    by auto
  have i1: "I s1 w1" using Cons.prems(1)[OF _ a Cons.prems(3)] by simp
  show ?case
  proof (rule Cons.IH[where s = s1 and w = w1])
    fix j s w s' w'
    assume "j \<in> set xs" "body j s w = (Inr s', w')" "I s w"
    then show "I s' w'" using Cons.prems(1)[of j s w s' w'] by simp
  next
    show "for_each xs body s1 w1 = (Inr s', w')" by (rule b)
  next
    show "I s1 w1" by (rule i1)
  qed
qed

lemma new_tensor_alloc:
  "new_tensor sh d vals w = (Inr t, w') \<Longrightarrow> storage t < length (heap w') \<and> storage t = length (heap w)
     \<and> offset t = 0 \<and> shape t = sh \<and> strides t = cstrides sh \<and> heap w' = heap w @ [vals]"
  by (auto simp: new_tensor_def)

lemma Dropout_forward_alloc:
  "Dropout_forward m t w = (Inr t', w') \<Longrightarrow> storage t < length (heap w) \<Longrightarrow> storage t' < length (heap w')"
  by (auto simp: Dropout_forward_def ret_def new_tensor_def split: if_splits)

lemma LSTM_forward_alloc:
  "LSTM_forward m x (h0, c0) w = (Inr (out, h_n, c_n), w') \<Longrightarrow>
     storage h_n < length (heap w') \<and> storage c_n < length (heap w')"
  by (auto simp: LSTM_forward_def Let_def raise_def seq_def ret_def new_tensor_def split: if_splits)

lemma timestep_alloc:
  assumes "timestep self x i s w = (Inr s', w')"
  shows "storage (fst s') < length (heap w')"
proof -
  obtain h c where s: "s = (h, c)" by (cases s)
  from assms[unfolded timestep_def s prod.case]
  obtain input_x w2 out h_n c_n w3 h' w4 where
    l: "LSTM_forward (rnn self) input_x (h, c) w2 = (Inr (out, h_n, c_n), w3)"
    and dd: "Dropout_forward (dropout self) h_n w3 = (Inr h', w4)"
    and r: "ret (h', c_n) w4 = (Inr s', w')"
    by (auto dest!: seq_InrD)
  from LSTM_forward_alloc[OF l] Dropout_forward_alloc[OF dd] r show ?thesis
    by (auto simp: ret_def)
qed

lemma recurrence_alloc:
  assumes "recurrence self x s w = (Inr s', w')" "storage (fst s) < length (heap w)"
  shows "storage (fst s') < length (heap w')"
  using assms(1)[unfolded recurrence_def] assms(2)
  by (rule for_each_inv[where I = "\<lambda>s w. storage (fst s) < length (heap w)", rotated 1])
     (rule timestep_alloc)

lemma init_states_alloc:
  assumes "init_states self x w = (Inr s, w')"
  shows "storage (fst s) < length (heap w')"
  using assms
  by (auto simp: init_states_def torch_zeros_def cuda_def raise_def ret_def new_tensor_def seq_def
      split: if_splits)

lemma recurrent_features_alloc:
  assumes "recurrent_features self x w = (Inr v, w')"
  shows "storage v < length (heap w')"
proof -
  from assms[unfolded recurrent_features_def] obtain x' w1 st w2 st' w3 where
    a: "init_states self x' w1 = (Inr st, w2)" and b: "recurrence self x' st w2 = (Inr st', w3)"
    and c: "(case st' of (hidden_state, cell_state) \<Rightarrow> ret (squeeze_0 hidden_state)) w3 = (Inr v, w')"
    by (auto dest!: seq_InrD)
  from recurrence_alloc[OF b init_states_alloc[OF a]] c show ?thesis
    by (cases st') (auto simp: ret_def squeeze_0_def split: list.splits if_splits)
qed

lemma chunk_length:
  assumes "i < n" "n * k \<le> length xs"
  shows "length (chunks n k xs ! i) = k"
proof -
  have "Suc i * k \<le> n * k" using assms(1) by (simp add: Suc_leI mult_le_mono1 del: mult_Suc)
  then have "i * k + k \<le> length xs" using assms(2) by simp
  then show ?thesis using assms(1) by (simp add: chunks_def)
qed

lemma cat_rows:
  assumes "length as = B * m" "length bs = B * n"
  defines "R \<equiv> map2 (@) (chunks B m as) (chunks B n bs)"
  shows "chunks B (m + n) (concat R) = map (\<lambda>b. chunks B m as ! b @ chunks B n bs ! b) [0..<B]"
    and "length (concat R) = B * (m + n)"
proof -
  have lR: "length R = B" by (simp add: R_def)
  have nth: "R ! b = chunks B m as ! b @ chunks B n bs ! b" if "b < B" for b
    using that by (simp add: R_def)
  have len: "length r = m + n" if "r \<in> set R" for r
  proof -
    from that lR obtain b where b: "b < B" "r = R ! b" by (auto simp: in_set_conv_nth)
    show ?thesis using b assms(1,2) by (simp add: nth chunk_length)
  qed
  have "chunks (length R) (m + n) (concat R) = R" by (rule chunks_concat) (rule len)
  moreover have "R = map (\<lambda>b. chunks B m as ! b @ chunks B n bs ! b) [0..<B]"
    by (rule nth_equalityI) (simp_all add: lR nth)
  ultimately show "chunks B (m + n) (concat R) = map (\<lambda>b. chunks B m as ! b @ chunks B n bs ! b) [0..<B]"
    by (simp add: lR)
  show "length (concat R) = B * (m + n)"
    using length_concat_const[of R "\<lambda>x. x" "m + n"] len by (simp add: lR)
qed

lemma tvals_append:
  "storage t < length H \<Longrightarrow> tvals (H @ X) t = tvals H t"
  by (simp add: tvals_def nth_append)

lemma tvals_unsqueeze_1:
  assumes "shape t = [B]" "strides t = [s]"
  shows "tvals H (t\<lparr>shape := [B, 1], strides := [s, 1]\<rparr>) = tvals H t"
  using assms by (simp add: tvals_def)

lemma chunks_1: "length xs = B \<Longrightarrow> b < B \<Longrightarrow> chunks B 1 xs ! b = [xs ! b]"
  by (simp add: chunks_def take_Suc_conv_app_nth)

lemma cat_1_data:
  assumes "shape a = [B, m]" "shape b = [B, n]" "device b = device a"
  shows "\<exists>t w'. cat_1 a b w = (Inr t, w') \<and> shape t = [B, m + n] \<and> device t = device a
      \<and> storage t < length (heap w') \<and> preserves w w'
      \<and> chunks B (m + n) (tvals (heap w') t)
          = map (\<lambda>i. chunks B m (tvals (heap w) a) ! i @ chunks B n (tvals (heap w) b) ! i) [0..<B]"
proof -
  define D where "D = concat (map2 (@) (chunks B m (tvals (heap w) a)) (chunks B n (tvals (heap w) b)))"
  define t where "t = \<lparr>storage = length (heap w), offset = 0, shape = [B, m + n],
      strides = cstrides [B, m + n], device = device a\<rparr>"
  have la: "length (tvals (heap w) a) = B * m" "length (tvals (heap w) b) = B * n"
    using assms by (simp_all add: numel_def)
  have c: "cat_1 a b w = (Inr t, w\<lparr>heap := heap w @ [D]\<rparr>)"
    using assms by (simp add: cat_1_def new_tensor_def D_def t_def)
  have lD: "length D = numel t"
    unfolding D_def using cat_rows(2)[OF la] by (simp add: t_def numel_def)
  have tv: "tvals (heap w @ [D]) t = D"
    by (rule tvals_fresh) (simp_all add: t_def lD[unfolded t_def])
  have "chunks B (m + n) (tvals (heap w @ [D]) t) = chunks B (m + n) D"
    by (simp only: tv)
  also have "\<dots> = map (\<lambda>i. chunks B m (tvals (heap w) a) ! i @ chunks B n (tvals (heap w) b) ! i) [0..<B]"
    unfolding D_def by (rule cat_rows(1)[OF la])
  finally show ?thesis
    using c by (simp add: t_def preserves_def)
qed

lemma augment_data:
  assumes "add_year_loc self" and v: "shape v = [B, H]" "device v = d" "storage v < length (heap w)"
    and ys: "shape ys = [B]" "length (strides ys) = 1" "device ys = d" "storage ys < length (heap w)"
    and locs: "shape locs = [B, 2]" "device locs = d" "storage locs < length (heap w)"
  shows "\<exists>f w'. augment self v (Some ys) (Some locs) w = (Inr f, w') \<and> shape f = [B, H + 3]
      \<and> device f = d
      \<and> chunks B (H + 3) (tvals (heap w') f)
          = map (\<lambda>b. chunks B H (tvals (heap w) v) ! b @ [tvals (heap w) ys ! b]
                       @ chunks B 2 (tvals (heap w) locs) ! b) [0..<B]"
proof -
  from ys(2) obtain s where s: "strides ys = [s]" by (cases "strides ys") auto
  define ys1 where "ys1 = ys\<lparr>shape := [B, 1], strides := [s, 1]\<rparr>"
  have u: "unsqueeze_1 ys w = (Inr ys1, w)"
    by (simp add: unsqueeze_1_def ys s ys1_def ret_def)
  have y1: "shape ys1 = [B, 1]" "device ys1 = d" "tvals (heap w) ys1 = tvals (heap w) ys"
    using tvals_unsqueeze_1[OF ys(1) s] by (simp_all add: ys1_def ys)
  have e: "(1::nat) + 2 = 3" by simp
  have d1: "device locs = device ys1" by (simp add: y1 locs)
  from cat_1_data[OF y1(1) locs(1) d1, of w, unfolded e y1(3)] obtain yl w1 where
    c1: "cat_1 ys1 locs w = (Inr yl, w1)" "shape yl = [B, 3]" "device yl = device ys1"
      "storage yl < length (heap w1)" "preserves w w1"
      "chunks B 3 (tvals (heap w1) yl)
          = map (\<lambda>i. chunks B 1 (tvals (heap w) ys) ! i @ chunks B 2 (tvals (heap w) locs) ! i) [0..<B]"
    by blast
  have d2: "device yl = device v" by (simp add: c1(3) y1 v)
  from cat_1_data[OF v(1) c1(2) d2, of w1] obtain f w2 where
    c2: "cat_1 v yl w1 = (Inr f, w2)" "shape f = [B, H + 3]" "device f = device v"
      "chunks B (H + 3) (tvals (heap w2) f)
          = map (\<lambda>i. chunks B H (tvals (heap w1) v) ! i @ chunks B 3 (tvals (heap w1) yl) ! i) [0..<B]"
    by blast
  have vv: "tvals (heap w1) v = tvals (heap w) v"
    by (rule tvals_preserved[OF c1(5) v(3)])
  have ly: "length (tvals (heap w) ys) = B" using ys by (simp add: numel_def)
  have rows: "chunks B H (tvals (heap w1) v) ! b @ chunks B 3 (tvals (heap w1) yl) ! b
      = chunks B H (tvals (heap w) v) ! b @ [tvals (heap w) ys ! b] @ chunks B 2 (tvals (heap w) locs) ! b"
    if "b < B" for b
    using that chunks_1[OF ly, of b] by (simp add: vv c1(6))
  have a: "augment self v (Some ys) (Some locs) w = (Inr f, w2)"
    using assms(1) by (simp add: augment_def seq_def u c1(1) c2(1))
  have "map (\<lambda>i. chunks B H (tvals (heap w1) v) ! i @ chunks B 3 (tvals (heap w1) yl) ! i) [0..<B]
      = map (\<lambda>b. chunks B H (tvals (heap w) v) ! b @ [tvals (heap w) ys ! b]
                       @ chunks B 2 (tvals (heap w) locs) ! b) [0..<B]"
    by (rule map_cong[OF refl]) (simp add: rows)
  then show ?thesis
    using a c2(2,3) v(2) by (simp add: c2(4))
qed

lemma example_net_yl_init:
  "RNNet_init 1 1 2 1 (1 / 4) None True example_world = (Inr example_net_yl, example_net_yl_world)"
  "3 \<le> length (heap example_net_yl_world)"
proof -
  have "returns (RNNet_init 1 1 2 1 (1 / 4) None True) example_world
     (\<lambda>net w'. net_ok CPU (map nat [5, 256, 1]) net \<and> add_year_loc net = True
        \<and> length (dense_layers net) = length [256, 1 :: int]
        \<and> lstm_input_size (rnn net) = nat (1 * 1) \<and> hidden_size net = 2
        \<and> dropout net = \<lparr>drop_p = 1 / 4, training = True\<rparr>
        \<and> pylists w' = (pylists example_world)(pyfresh example_world := [5, 256, 1])
        \<and> pyfresh w' = (case None :: nat option of None \<Rightarrow> Suc (pyfresh example_world) | Some a \<Rightarrow> pyfresh example_world)
        \<and> draws w' = draws example_world \<and> cuda_current w' = cuda_current example_world
        \<and> length (heap example_world) \<le> length (heap w'))"
    by (rule RNNet_init_ok) simp_all
  from returnsD[OF this] obtain net w' where
    r: "RNNet_init 1 1 2 1 (1 / 4) None True example_world = (Inr net, w')"
    and p: "3 \<le> length (heap w')"
    by (auto simp: example_world_def)
  have "example_net_yl = net" "example_net_yl_world = w'"
    by (simp_all add: example_net_yl_def example_net_yl_world_def r)
  with r p show
    "RNNet_init 1 1 2 1 (1 / 4) None True example_world = (Inr example_net_yl, example_net_yl_world)"
    "3 \<le> length (heap example_net_yl_world)"
    by simp_all
qed

section \<open>Independence of unused arguments\<close>

text \<open>
  Claim C9. A network without augmentation ignores the years and locations: the call with
  any values for them, in the same state (so with the same random draws), is the call with
  none, result and final state.
\<close>

theorem C9_years_locations_unused:
  assumes "\<not> add_year_loc self"
  shows "forward self x years locations return_last_dense w
       = forward self x None None return_last_dense w"
  using assms by (simp add: forward_def features_def augment_def)

theorem C9_years_locations_unused_witness:
  "\<not> add_year_loc example_net
   \<and> forward example_net example_x (Some example_years) (Some example_locations) True example_net_world
       = forward example_net example_x None None True example_net_world"
  using C9_years_locations_unused[of example_net example_x "Some example_years"
      "Some example_locations" True example_net_world]
  by (simp add: example_net_init)

lemma new_tensor_tvals:
  assumes "new_tensor sh d vals w = (Inr t, w')" "length vals = prod_list sh"
  shows "tvals (heap w') t = vals" "storage t < length (heap w')" "preserves w w'"
    "shape t = sh" "device t = d"
proof -
  from new_tensor_alloc[OF assms(1)] have a: "storage t = length (heap w)" "offset t = 0"
    "shape t = sh" "strides t = cstrides sh" "heap w' = heap w @ [vals]" by simp_all
  show "tvals (heap w') t = vals"
    unfolding a(5) by (rule tvals_fresh) (simp_all add: a assms(2) numel_def)
  show "storage t < length (heap w')" by (simp add: a)
  show "preserves w w'" by (rule preserves_new_tensor[OF assms(1)])
  show "shape t = sh" by (rule a(3))
  show "device t = d" using assms(1) by (auto simp: new_tensor_def)
qed

lemma cuda_tvals_conj:
  assumes "cuda t w = (Inr t', w')" "storage t < length (heap w)"
  shows "tvals (heap w') t' = tvals (heap w) t \<and> storage t' < length (heap w') \<and> preserves w w'
      \<and> shape t' = shape t \<and> device t' = CUDA (cuda_current w)"
proof (cases "device t = CUDA (cuda_current w)")
  case True
  then show ?thesis
    using assms by (simp add: cuda_def ret_def preserves_refl)
next
  case False
  then have n: "new_tensor (shape t) (CUDA (cuda_current w)) (tvals (heap w) t) w = (Inr t', w')"
    using assms(1) by (simp add: cuda_def)
  have l: "length (tvals (heap w) t) = prod_list (shape t)" by (simp add: numel_def)
  from new_tensor_tvals[OF n l] show ?thesis by simp
qed

lemma cuda_tvals:
  assumes "cuda t w = (Inr t', w')" "storage t < length (heap w)"
  shows "tvals (heap w') t' = tvals (heap w) t" "storage t' < length (heap w')" "preserves w w'"
    "shape t' = shape t" "device t' = CUDA (cuda_current w)"
  using cuda_tvals_conj[OF assms] by simp_all

lemma torch_zeros_tvals:
  assumes "torch_zeros sizes w = (Inr t, w')"
  shows "tvals (heap w') t = replicate (prod_list (map nat sizes)) 0" "storage t < length (heap w')"
    "preserves w w'" "shape t = map nat sizes" "device t = CPU"
proof -
  have n: "new_tensor (map nat sizes) CPU (replicate (prod_list (map nat sizes)) 0) w = (Inr t, w')"
    using assms by (simp add: torch_zeros_def raise_def split: if_splits)
  from new_tensor_tvals[OF n]
  show "tvals (heap w') t = replicate (prod_list (map nat sizes)) 0" "storage t < length (heap w')"
    "preserves w w'" "shape t = map nat sizes" "device t = CPU"
    by simp_all
qed

lemma init_states_data:
  assumes "hidden_size self = int H"
  shows "describe_states (init_states self x w) =
     (let d = (if is_cuda x then CUDA (cuda_current w) else CPU);
          z = replicate (shape x ! 0 * H) 0
      in Inr (([1, shape x ! 0, H], d, z), ([1, shape x ! 0, H], d, z)))"
proof -
  define B where "B = shape x ! 0"
  have nn: "\<not> list_ex (\<lambda>n. n < 0) [1, int B, int H]" by simp
  obtain h0 w1 where h0: "torch_zeros [1, int B, int H] w = (Inr h0, w1)"
    by (simp add: torch_zeros_def new_tensor_def)
  obtain c0 w2 where c0: "torch_zeros [1, int B, int H] w1 = (Inr c0, w2)"
    by (simp add: torch_zeros_def new_tensor_def)
  note zh = torch_zeros_tvals[OF h0] and zc = torch_zeros_tvals[OF c0]
  have h2: "tvals (heap w2) h0 = replicate (B * H) 0"
    using tvals_preserved[OF zc(3) zh(2)] zh(1) by simp
  show ?thesis
  proof (cases "is_cuda x")
    case False
    then have "init_states self x w = (Inr (h0, c0), w2)"
      by (simp add: init_states_def assms B_def[symmetric] seq_def h0 c0 ret_def)
    then show ?thesis
      using False zh zc h2 by (simp add: describe_states_def B_def[symmetric] Let_def)
  next
    case True
    obtain h w3 where h: "cuda h0 w2 = (Inr h, w3)"
      by (cases "device h0 = CUDA (cuda_current w2)") (simp_all add: cuda_def ret_def new_tensor_def)
    obtain c w4 where c: "cuda c0 w3 = (Inr c, w4)"
      by (cases "device c0 = CUDA (cuda_current w3)") (simp_all add: cuda_def ret_def new_tensor_def)
    have a2: "storage h0 < length (heap w2)"
      using zh(2) zc(3) by (simp add: preserves_def)
    note ch = cuda_tvals[OF h a2]
    have a3: "storage c0 < length (heap w3)"
      using zc(2) ch(3) by (simp add: preserves_def)
    note cc = cuda_tvals[OF c a3]
    have cur: "cuda_current w2 = cuda_current w" "cuda_current w3 = cuda_current w"
      using zh(3) zc(3) ch(3) by (simp_all add: preserves_def)
    have hv: "tvals (heap w4) h = replicate (B * H) 0"
      using tvals_preserved[OF cc(3) ch(2)] ch(1) h2 by simp
    have cv: "tvals (heap w4) c = replicate (B * H) 0"
      using cc(1) tvals_preserved[OF ch(3) zc(2)] zc(1) by simp
    have "init_states self x w = (Inr (h, c), w4)"
      using True by (simp add: init_states_def assms B_def[symmetric] seq_def h0 c0 h c ret_def)
    then show ?thesis
      using True hv cv ch cc zh zc cur by (simp add: describe_states_def B_def[symmetric] Let_def)
  qed
qed

section \<open>The device of the state tensors\<close>

text \<open>
  Claim C8. The two state tensors are zero-filled and of shape \<open>[1, batch, hidden_size]\<close>, but
  they are not always on the device of the input: \<^verbatim>\<open>.cuda()\<close> moves them to the current CUDA
  device. For the example input on \<^verbatim>\<open>cuda:1\<close> in a process whose current device is
  \<^verbatim>\<open>cuda:0\<close>, both states are on \<^verbatim>\<open>cuda:0\<close>.
\<close>

theorem C8_states_on_current_cuda_device:
  "device example_x_cuda1 = CUDA 1 \<and> cuda_current example_net_world = 0
   \<and> describe_states (seq (reshape_input example_x_cuda1) (init_states example_net) example_net_world)
       = Inr (([1, 1, 2], CUDA 0, [0, 0]), ([1, 1, 2], CUDA 0, [0, 0]))"
proof -
  have x: "shape example_x_cuda1 = [1, 1, 3, 1]" "length (strides example_x_cuda1) = 4"
    "device example_x_cuda1 = CUDA 1"
    by (simp_all add: example_x_cuda1_def example_x_def)
  from returnsD[OF reshape_input_ok[OF x(1,2), of example_net_world]] obtain x' w' where
    r: "reshape_input example_x_cuda1 example_net_world = (Inr x', w')"
    and p: "shape x' = [1, 3, 1 * 1]" "device x' = CUDA 1" "preserves example_net_world w'"
    by (auto simp: x)
  have h: "hidden_size example_net = int 2"
    using example_net_init(2,3) by (simp add: net_ok_def)
  have cur: "cuda_current w' = 0"
    using p(3) example_net_init(6) by (simp add: preserves_def)
  have "describe_states (init_states example_net x' w')
      = Inr (([1, 1, 2], CUDA 0, [0, 0]), ([1, 1, 2], CUDA 0, [0, 0]))"
    by (simp add: init_states_data[OF h] p cur is_cuda_def Let_def numeral_2_eq_2)
  then show ?thesis
    by (simp add: x example_net_init(6) seq_def r)
qed

lemma for_each_snoc: "for_each (xs @ [i]) body s = seq (for_each xs body s) (body i)"
proof
  fix w
  show "for_each (xs @ [i]) body s w = seq (for_each xs body s) (body i) w"
  proof (cases rule: action_cases[of "for_each xs body s" w])
    case (raises e w')
    then show ?thesis by (simp add: for_each_append seq_def)
  next
    case (returns v w')
    then show ?thesis
      by (cases rule: action_cases[of "body i v" w']) (simp_all add: for_each_append seq_def ret_def)
  qed
qed

lemma reshape_input_time:
  "(case reshape_input x0 w of (Inr x, w') \<Rightarrow> shape x ! 1 = shape x0 ! 2 | (Inl e, w') \<Rightarrow> True)"
proof (cases "length (shape x0) = 4 \<and> length (strides x0) = 4")
  case False
  then have "reshape_input x0 w = (Inl TorchError, w)"
    by (auto simp add: reshape_input_def permute_0213_def seq_def raise_def)
  then show ?thesis by simp
next
  case True
  then obtain B C T N where sh: "shape x0 = [B, C, T, N]"
    by (auto simp: length_Suc_conv numeral_eq_Suc)
  from True returnsD[OF reshape_input_ok[OF sh, of w]] obtain x w' where
    "reshape_input x0 w = (Inr x, w')" "shape x = [B, T, C * N]"
    by auto
  then show ?thesis by (simp add: sh)
qed

lemma framedI: "(\<And>w. preserves w (snd (m w))) \<Longrightarrow> framed m"
  by (simp add: framed_def)

lemma framedD: "framed m \<Longrightarrow> preserves w (snd (m w))"
  by (simp add: framed_def)

lemma framed_ret: "framed (ret v)"
  by (simp add: framed_def ret_def preserves_refl)

lemma framed_raise: "framed (raise e)"
  by (simp add: framed_def raise_def preserves_refl)

lemma framed_seq:
  assumes "framed m" "\<And>v. framed (f v)"
  shows "framed (seq m f)"
proof (rule framedI)
  fix w
  show "preserves w (snd (seq m f w))"
  proof (cases rule: action_cases[of m w])
    case (raises e w')
    then show ?thesis using framedD[OF assms(1), of w] by (simp add: seq_def)
  next
    case (returns v w')
    then show ?thesis
      using framedD[OF assms(1), of w] framedD[OF assms(2), of w' v]
      by (auto simp add: seq_def intro: preserves_trans)
  qed
qed

lemma framed_if: "framed a \<Longrightarrow> framed b \<Longrightarrow> framed (if c then a else b)"
  by simp

lemma framed_for_each:
  assumes "\<And>i s. framed (body i s)"
  shows "framed (for_each xs body s)"
  by (induction xs arbitrary: s) (simp_all add: framed_ret framed_seq assms)

lemma framed_new_tensor: "framed (new_tensor sh d vals)"
  by (simp add: framed_def new_tensor_def preserves_def)

lemma framed_permute: "framed (permute_0213 t)"
  by (simp add: permute_0213_def framed_ret framed_raise)

lemma framed_contiguous: "framed (contiguous t)"
  by (simp add: framed_def contiguous_def ret_def new_tensor_def preserves_def)

lemma framed_view: "framed (view t sizes)"
  by (simp add: view_def framed_ret framed_raise)

lemma framed_torch_zeros: "framed (torch_zeros sizes)"
  by (simp add: torch_zeros_def framed_raise framed_new_tensor)

lemma framed_cuda: "framed (cuda t)"
  by (simp add: framed_def cuda_def ret_def new_tensor_def preserves_def)

lemma framed_select_1: "framed (select_1 t i)"
  by (simp add: select_1_def framed_ret framed_raise)

lemma framed_unsqueeze_1: "framed (unsqueeze_1 t)"
  by (simp add: unsqueeze_1_def framed_ret framed_raise split: list.splits)

lemma framed_cat_1: "framed (cat_1 a b)"
  by (simp add: framed_def cat_1_def raise_def new_tensor_def preserves_def)

lemma framed_Dropout_forward: "framed (Dropout_forward m t)"
  by (simp add: framed_def Dropout_forward_def ret_def new_tensor_def preserves_def)

lemma framed_Linear_forward: "framed (Linear_forward m x)"
  by (simp add: framed_def Linear_forward_def raise_def new_tensor_def preserves_def)

lemma framed_LSTM_forward: "framed (LSTM_forward m x s)"
  by (cases s)
     (simp add: framed_def LSTM_forward_def Let_def raise_def seq_def ret_def new_tensor_def
        preserves_def)

lemma framed_reshape_input: "framed (reshape_input x)"
  unfolding reshape_input_def
  by (intro framed_seq framed_permute framed_contiguous framed_view)

lemma framed_init_states: "framed (init_states self x)"
  unfolding init_states_def
  by (intro framed_seq framed_if framed_torch_zeros framed_cuda framed_ret)

lemma framed_timestep: "framed (timestep self x i s)"
  unfolding timestep_def
  by (cases s)
     (auto intro!: framed_seq framed_select_1 framed_unsqueeze_1 framed_LSTM_forward
        framed_Dropout_forward framed_ret)

lemma framed_recurrence: "framed (recurrence self x s)"
  unfolding recurrence_def by (rule framed_for_each) (rule framed_timestep)

lemma framed_augment: "framed (augment self v years locations)"
  unfolding augment_def
  by (auto intro!: framed_seq framed_unsqueeze_1 framed_cat_1 framed_ret framed_raise
      split: option.splits)

lemma framed_recurrent_features: "framed (recurrent_features self x)"
  unfolding recurrent_features_def
  by (auto intro!: framed_seq framed_reshape_input framed_init_states framed_recurrence framed_ret)

lemma framed_features: "framed (features self x years locations)"
  unfolding features_def
  by (intro framed_seq framed_recurrent_features framed_augment)

lemma framed_dense_step: "framed (dense_step self rld il s)"
  unfolding dense_step_def
  by (cases il; cases s) (auto intro!: framed_seq framed_Linear_forward framed_ret)

lemma framed_dense_stack: "framed (dense_stack self rld x)"
  unfolding dense_stack_def by (rule framed_for_each) (rule framed_dense_step)

lemma framed_forward: "framed (forward self x years locations rld)"
  unfolding forward_def
  by (auto intro!: framed_seq framed_features framed_dense_stack framed_ret framed_raise
      split: option.splits)

lemma reshape_input_storage:
  "map_sum id storage (fst (reshape_input x w)) =
     (case fst (permute_0213 x w) of
        Inl e \<Rightarrow> Inl e
      | Inr xp \<Rightarrow> Inr (if is_contiguous xp then storage x else length (heap w)))"
proof (cases "length (shape x) = 4 \<and> length (strides x) = 4")
  case False
  then show ?thesis
    by (auto simp add: reshape_input_def permute_0213_def seq_def raise_def)
next
  case True
  define xp where "xp = x\<lparr>shape := [shape x ! 0, shape x ! 2, shape x ! 1, shape x ! 3],
      strides := [strides x ! 0, strides x ! 2, strides x ! 1, strides x ! 3]\<rparr>"
  have p: "permute_0213 x w = (Inr xp, w)"
    using True by (simp add: permute_0213_def ret_def xp_def)
  have n: "prod_list [shape xp ! 0, shape xp ! 1, shape xp ! 2 * shape xp ! 3] = numel xp"
    by (simp add: xp_def numel_def mult.assoc)
  show ?thesis
  proof (cases "is_contiguous xp")
    case True
    then have "reshape_input x w = (Inr (xp\<lparr>shape := [shape xp ! 0, shape xp ! 1, shape xp ! 2 * shape xp ! 3],
          strides := cstrides [shape xp ! 0, shape xp ! 1, shape xp ! 2 * shape xp ! 3]\<rparr>), w)"
      using n by (simp add: reshape_input_def seq_def p contiguous_def view_def ret_def)
    then show ?thesis using True by (simp add: p xp_def)
  next
    case False
    define xc where "xc = \<lparr>storage = length (heap w), offset = 0, shape = shape xp,
        strides = cstrides (shape xp), device = device xp\<rparr>"
    have c: "contiguous xp w = (Inr xc, w\<lparr>heap := heap w @ [tvals (heap w) xp]\<rparr>)"
      using False by (simp add: contiguous_def new_tensor_def xc_def)
    have ic: "is_contiguous xc" by (rule is_contiguous_fresh) (simp add: xc_def)
    have nc: "prod_list [shape xc ! 0, shape xc ! 1, shape xc ! 2 * shape xc ! 3] = numel xc"
      using n by (simp add: xc_def numel_def)
    have "reshape_input x w = (Inr (xc\<lparr>shape := [shape xc ! 0, shape xc ! 1, shape xc ! 2 * shape xc ! 3],
          strides := cstrides [shape xc ! 0, shape xc ! 1, shape xc ! 2 * shape xc ! 3]\<rparr>),
          w\<lparr>heap := heap w @ [tvals (heap w) xp]\<rparr>)"
      using ic nc by (simp add: reshape_input_def seq_def p c view_def ret_def)
    then show ?thesis using False by (simp add: p xc_def)
  qed
qed

section \<open>What a call leaves untouched\<close>

text \<open>
  Claim C10, as the source has it. The claim's reason fails: for the example input (one band)
  the permuted view is already contiguous, \<^verbatim>\<open>contiguous()\<close> returns that view, and the
  reshaped tensor lives in the caller's storage; no copy is made.
\<close>

theorem C10_reshape_without_copy:
  "map_sum id storage (fst (reshape_input example_x example_world)) = Inr (storage example_x)
   \<and> heap (snd (reshape_input example_x example_world)) = heap example_world"
  by (simp add: reshape_input_def permute_0213_def contiguous_def view_def seq_def ret_def
      is_contiguous_def numel_def example_x_def example_world_def)

text \<open>
  What holds: every operation of \<open>forward\<close> allocates or reads, none writes in place. So after
  any call, returning or raising, every tensor of a storage that existed before the call (the
  caller's input, every parameter of the network) has the elements it had; and the reshaped
  input is in the input's own storage when the permuted view is contiguous and in a new
  storage otherwise.
\<close>

theorem C10_forward_frame:
  assumes "storage t < length (heap w)"
  shows "tvals (heap (snd (forward self x years locations return_last_dense w))) t = tvals (heap w) t
    \<and> map_sum id storage (fst (reshape_input x w)) =
         (case fst (permute_0213 x w) of
            Inl e \<Rightarrow> Inl e
          | Inr xp \<Rightarrow> Inr (if is_contiguous xp then storage x else length (heap w)))"
  using tvals_preserved[OF framedD[OF framed_forward] assms] reshape_input_storage
  by simp

theorem C10_forward_frame_witness:
  "storage example_x < length (heap example_net_world)
   \<and> tvals (heap (snd (forward example_net example_x None None False example_net_world))) example_x
       = tvals (heap example_net_world) example_x
   \<and> map_sum id storage (fst (reshape_input example_x example_net_world)) =
         (case fst (permute_0213 example_x example_net_world) of
            Inl e \<Rightarrow> Inl e
          | Inr xp \<Rightarrow> Inr (if is_contiguous xp then storage example_x
                            else length (heap example_net_world)))"
proof -
  have "storage example_x = 0" by (simp add: example_x_def)
  moreover have "0 < length (heap example_net_world)"
    using example_net_init(7) by arith
  ultimately have a: "storage example_x < length (heap example_net_world)"
    by (simp only:)
  from C10_forward_frame[OF a, of example_net example_x None None False] a
  show ?thesis by simp
qed

section \<open>Parameters and their storages\<close>

lemma tvals_plain:
  assumes "plain H t"
  shows "tvals H t = H ! storage t"
proof -
  have "tvals H t = map ((!) (H ! storage t)) [0..<length (H ! storage t)]"
    using assms by (simp add: plain_def tvals_def offsets_cstrides numel_def)
  then show ?thesis by (simp add: map_nth)
qed

lemma fold_update_prefix:
  "length vals \<le> length st \<Longrightarrow>
     fold (\<lambda>(k, v) st. st[k := v]) (zip [0..<length vals] vals) st = vals @ drop (length vals) st"
proof (induction vals rule: rev_induct)
  case Nil
  then show ?case by simp
next
  case (snoc v vals)
  have z: "zip [0..<length (vals @ [v])] (vals @ [v]) = zip [0..<length vals] vals @ [(length vals, v)]"
    by simp
  have IH: "fold (\<lambda>(k, v) st. st[k := v]) (zip [0..<length vals] vals) st = vals @ drop (length vals) st"
    using snoc by simp
  have lt: "length vals < length st" using snoc.prems by simp
  have d: "drop (length vals) st = st ! length vals # drop (Suc (length vals)) st"
    using lt by (simp add: Cons_nth_drop_Suc)
  have "(vals @ drop (length vals) st)[length vals := v] = vals @ (drop (length vals) st)[0 := v]"
    by (simp add: list_update_append)
  also have "\<dots> = vals @ v # drop (Suc (length vals)) st"
    by (subst d) simp
  finally have "(vals @ drop (length vals) st)[length vals := v]
      = (vals @ [v]) @ drop (length (vals @ [v])) st"
    by simp
  then show ?case by (simp only: z fold_append comp_apply IH fold_simps prod.case)
qed

lemma fold_update_upt:
  assumes "length vals = n" "length st = n"
  shows "fold (\<lambda>(k, v) st. st[k := v]) (zip [0..<n] vals) st = vals"
  using fold_update_prefix[of vals st] assms by simp

lemma write_vals_plain:
  assumes "plain H t" "length vals = numel t"
  shows "write_vals t vals H = H[storage t := vals]"
proof -
  have "fold (\<lambda>(k, v) st. st[0 + k := v]) (zip [0..<numel t] vals) (H ! storage t) = vals"
    using fold_update_upt[OF assms(2), of "H ! storage t"] assms(1) by (simp add: plain_def)
  then show ?thesis
    using assms(1) by (simp add: write_vals_def plain_def offsets_cstrides numel_def)
qed

lemma seq_assoc: "seq (seq m f) g = seq m (\<lambda>v. seq (f v) g)"
proof
  fix w
  show "seq (seq m f) g w = seq m (\<lambda>v. seq (f v) g) w"
    by (cases rule: action_cases[of m w]) (simp_all add: seq_def)
qed

lemma for_each_append_fun: "for_each (xs @ ys) body s = seq (for_each xs body s) (for_each ys body)"
  by (rule ext) (rule for_each_append)

lemma for_each_concat:
  "for_each pss (\<lambda>ps. for_each ps body) s = for_each (concat pss) body s"
proof (induction pss arbitrary: s)
  case Nil
  then show ?case by simp
next
  case (Cons ps pss)
  have "for_each pss (\<lambda>ps. for_each ps body) = for_each (concat pss) body"
    using Cons by (simp add: fun_eq_iff)
  then show ?case by (simp add: for_each_append_fun)
qed

text \<open>
  A loop of in-place initialisations over pairwise separate plain tensors: it returns, the
  heap keeps its layout, storages that are no target keep their elements, and each target
  holds what its own step wrote.
\<close>

lemma write_loop:
  fixes tgt :: "'i \<Rightarrow> tensor" and wop :: "'i \<Rightarrow> unit action" and P :: "'i \<Rightarrow> real list \<Rightarrow> bool"
  assumes step: "\<And>x w. x \<in> set items \<Longrightarrow> plain (heap w) (tgt x) \<Longrightarrow> draws w = dr \<Longrightarrow>
        \<exists>vals r. wop x w = (Inr (), w\<lparr>heap := (heap w)[storage (tgt x) := vals], rng_pos := r\<rparr>)
          \<and> length vals = numel (tgt x) \<and> P x vals"
    and "list_all (plain (heap w)) (map tgt items)"
    and "distinct (map (\<lambda>x. storage (tgt x)) items)"
    and "draws w = dr"
  shows "\<exists>H r. for_each items (\<lambda>x u. wop x) () w = (Inr (), w\<lparr>heap := H, rng_pos := r\<rparr>)
      \<and> length H = length (heap w)
      \<and> (\<forall>s < length H. length (H ! s) = length (heap w ! s))
      \<and> (\<forall>s < length H. s \<notin> (\<lambda>x. storage (tgt x)) ` set items \<longrightarrow> H ! s = heap w ! s)
      \<and> (\<forall>x \<in> set items. P x (H ! storage (tgt x)))"
  using assms
proof (induction items arbitrary: w)
  case Nil
  have "w = w\<lparr>heap := heap w, rng_pos := rng_pos w\<rparr>" by simp
  then have "for_each [] (\<lambda>x u. wop x) () w = (Inr (), w\<lparr>heap := heap w, rng_pos := rng_pos w\<rparr>)"
    by (simp add: ret_def)
  then show ?case by (intro exI[of _ "heap w"] exI[of _ "rng_pos w"]) simp
next
  case (Cons x xs)
  define sx where "sx = storage (tgt x)"
  have px: "plain (heap w) (tgt x)" using Cons.prems(2) by simp
  from Cons.prems(1)[OF _ px Cons.prems(4)] obtain vals r1 where
    s1: "wop x w = (Inr (), w\<lparr>heap := (heap w)[sx := vals], rng_pos := r1\<rparr>)"
    and lv: "length vals = numel (tgt x)" and Pv: "P x vals"
    by (auto simp: sx_def)
  define H1 where "H1 = (heap w)[sx := vals]"
  define w1 where "w1 = w\<lparr>heap := H1, rng_pos := r1\<rparr>"
  have sxl: "sx < length (heap w)" "length (heap w ! sx) = numel (tgt x)"
    using px by (simp_all add: plain_def sx_def)
  have nin: "sx \<notin> (\<lambda>x. storage (tgt x)) ` set xs"
    using Cons.prems(3) by (simp add: sx_def)
  have nx: "storage (tgt y) \<noteq> sx" if "y \<in> set xs" for y
  proof
    assume "storage (tgt y) = sx"
    then have "sx \<in> (\<lambda>x. storage (tgt x)) ` set xs" using that by (rule_tac x = y in image_eqI) simp_all
    with nin show False by simp
  qed
  have pl1: "plain (heap w1) (tgt y)" if "y \<in> set xs" for y
  proof -
    have "plain (heap w) (tgt y)" using Cons.prems(2) that by (simp add: list_all_iff)
    moreover have "(heap w)[sx := vals] ! storage (tgt y) = heap w ! storage (tgt y)"
      using nx[OF that] by simp
    ultimately show ?thesis by (simp add: plain_def w1_def H1_def)
  qed
  have pl: "list_all (plain (heap w1)) (map tgt xs)"
    using pl1 by (simp add: list_all_iff)
  have ud: "draws w1 = dr" using Cons.prems(4) by (simp add: w1_def)
  have di: "distinct (map (\<lambda>x. storage (tgt x)) xs)" using Cons.prems(3) by simp
  have st: "\<And>y w. y \<in> set xs \<Longrightarrow> plain (heap w) (tgt y) \<Longrightarrow> draws w = dr \<Longrightarrow>
        \<exists>vals r. wop y w = (Inr (), w\<lparr>heap := (heap w)[storage (tgt y) := vals], rng_pos := r\<rparr>)
          \<and> length vals = numel (tgt y) \<and> P y vals"
    using Cons.prems(1) by simp
  from Cons.IH[OF st pl di ud] obtain H r where
    r: "for_each xs (\<lambda>x u. wop x) () w1 = (Inr (), w1\<lparr>heap := H, rng_pos := r\<rparr>)"
    and lH: "length H = length (heap w1)"
    and ll: "\<And>s. s < length H \<Longrightarrow> length (H ! s) = length (heap w1 ! s)"
    and un: "\<And>s. s < length H \<Longrightarrow> s \<notin> (\<lambda>x. storage (tgt x)) ` set xs \<Longrightarrow> H ! s = heap w1 ! s"
    and PP: "\<And>y. y \<in> set xs \<Longrightarrow> P y (H ! storage (tgt y))"
    by blast
  have e: "for_each (x # xs) (\<lambda>x u. wop x) () w = (Inr (), w\<lparr>heap := H, rng_pos := r\<rparr>)"
    using r by (simp add: seq_def s1 w1_def H1_def)
  have l1: "length H = length (heap w)" using lH by (simp add: w1_def H1_def)
  have l2: "length (H ! s) = length (heap w ! s)" if "s < length H" for s
    using ll[OF that] that l1 sxl lv by (cases "s = sx") (simp_all add: w1_def H1_def)
  have l3: "H ! s = heap w ! s" if "s < length H" "s \<notin> (\<lambda>x. storage (tgt x)) ` set (x # xs)" for s
    using un[of s] that by (auto simp: w1_def H1_def sx_def)
  from nin have "H ! sx = vals" using un[of sx] sxl l1 by (simp add: w1_def H1_def)
  then have l4: "P y (H ! storage (tgt y))" if "y \<in> set (x # xs)" for y
    using that Pv PP by (auto simp: sx_def)
  show ?case using e l1 l2 l3 l4 by blast
qed

lemma init_uniform_step:
  assumes "plain (heap w) t" "a \<le> b"
  shows "\<exists>vals r. init_uniform t a b w = (Inr (), w\<lparr>heap := (heap w)[storage t := vals], rng_pos := r\<rparr>)
      \<and> length vals = numel t
      \<and> list_all (\<lambda>v. \<exists>k. v = uniform_value (f32 a) (f32 b) (draws w k)) vals"
proof -
  define vals where
    "vals = map (\<lambda>j. uniform_value (f32 a) (f32 b) (draws w (rng_pos w + j))) [0..<numel t]"
  have l: "length vals = numel t" by (simp add: vals_def)
  have "list_all (\<lambda>v. \<exists>k. v = uniform_value (f32 a) (f32 b) (draws w k)) vals"
    by (auto simp add: vals_def list_all_iff)
  moreover have "init_uniform t a b w
      = (Inr (), w\<lparr>heap := (heap w)[storage t := vals], rng_pos := rng_pos w + numel t\<rparr>)"
    using assms(2) write_vals_plain[OF assms(1) l] by (simp add: init_uniform_def vals_def)
  ultimately show ?thesis using l by blast
qed

lemma init_constant_step:
  assumes "plain (heap w) t"
  shows "\<exists>vals r. init_constant t c w = (Inr (), w\<lparr>heap := (heap w)[storage t := vals], rng_pos := r\<rparr>)
      \<and> length vals = numel t \<and> list_all (\<lambda>v. v = f32 c) vals"
proof -
  have "init_constant t c w
      = (Inr (), w\<lparr>heap := (heap w)[storage t := replicate (numel t) (f32 c)], rng_pos := rng_pos w\<rparr>)"
    using write_vals_plain[OF assms, of "replicate (numel t) (f32 c)"] by (simp add: init_constant_def)
  moreover have "list_all (\<lambda>v. v = f32 c) (replicate (numel t) (f32 c))" by (simp add: list_all_iff)
  ultimately show ?thesis
    by (intro exI[of _ "replicate (numel t) (f32 c)"] exI[of _ "rng_pos w"]) simp
qed

lemma init_kaiming_uniform_step:
  assumes "plain (heap w) t" "2 \<le> length (shape t)"
  shows "\<exists>vals r. init_kaiming_uniform t w
        = (Inr (), w\<lparr>heap := (heap w)[storage t := vals], rng_pos := r\<rparr>)
      \<and> length vals = numel t \<and> True"
proof (cases "numel t = 0")
  case True
  have "w = w\<lparr>heap := (heap w)[storage t := heap w ! storage t], rng_pos := rng_pos w\<rparr>"
    by simp
  then have "init_kaiming_uniform t w
      = (Inr (), w\<lparr>heap := (heap w)[storage t := heap w ! storage t], rng_pos := rng_pos w\<rparr>)"
    using True by (simp add: init_kaiming_uniform_def ret_def)
  moreover have "length (heap w ! storage t) = numel t" using assms(1) by (simp add: plain_def)
  ultimately show ?thesis by blast
next
  case False
  define bound where "bound = f64 (f64 (sqrt 3) *
      f64 (f64 (sqrt 2) / f64 (sqrt (real (prod_list (tl (shape t)))))))"
  have "0 \<le> bound" unfolding bound_def by (intro f64_nonneg mult_nonneg_nonneg divide_nonneg_nonneg) simp_all
  then have b: "- bound \<le> bound" by simp
  have "init_kaiming_uniform t w = init_uniform t (- bound) bound w"
    using False assms(2) by (simp add: init_kaiming_uniform_def Let_def bound_def)
  with init_uniform_step[OF assms(1) b] show ?thesis by auto
qed

lemma dense_init_flat:
  "for_each ls (\<lambda>l u. seq (init_kaiming_uniform (weight l)) (\<lambda>u. init_constant (bias l) 0)) ()
     = for_each (concat (map (\<lambda>l. [(True, weight l), (False, bias l)]) ls))
         (\<lambda>x u. (case x of (k, t) \<Rightarrow> if k then init_kaiming_uniform t else init_constant t 0)) ()"
proof (induction ls)
  case Nil
  then show ?case by simp
next
  case (Cons l ls)
  have u: "for_each ls (\<lambda>l u. seq (init_kaiming_uniform (weight l)) (\<lambda>u. init_constant (bias l) 0))
      = (\<lambda>u. for_each (concat (map (\<lambda>l. [(True, weight l), (False, bias l)]) ls))
         (\<lambda>x u. (case x of (k, t) \<Rightarrow> if k then init_kaiming_uniform t else init_constant t 0)) ())"
    using Cons by (simp add: fun_eq_iff)
  have v: "for_each ((False, bias l) # rest)
         (\<lambda>x u. (case x of (k, t) \<Rightarrow> if k then init_kaiming_uniform t else init_constant t 0))
      = (\<lambda>u. seq (init_constant (bias l) 0) (for_each rest
         (\<lambda>x u. (case x of (k, t) \<Rightarrow> if k then init_kaiming_uniform t else init_constant t 0))))" for rest
    by (simp add: fun_eq_iff)
  show ?case by (simp add: u v seq_assoc)
qed

lemma initialize_weights_values:
  assumes h: "0 < hidden_size self"
    and dims: "list_all (\<lambda>l. length (shape (weight l)) = 2) (dense_layers self)"
    and po: "params_ok (heap w) self"
  defines "k \<equiv> f64 (sqrt (f64 (1 / real_of_int (hidden_size self))))"
  shows "\<exists>w'. initialize_weights self w = (Inr (), w')
      \<and> (\<forall>t \<in> set (concat (all_weights (rnn self))). \<forall>v \<in> set (tvals (heap w') t).
            \<exists>j. v = uniform_value (f32 (- k)) (f32 k) (draws w j))
      \<and> (\<forall>l \<in> set (dense_layers self). \<forall>v \<in> set (tvals (heap w') (bias l)). v = 0)
      \<and> params_ok (heap w') self \<and> draws w' = draws w"
proof -
  define rs where "rs = concat (all_weights (rnn self))"
  define ds where "ds = concat (map (\<lambda>l. [(True, weight l), (False, bias l)]) (dense_layers self))"
  define wop where "wop = (\<lambda>x :: bool \<times> tensor. case x of (b, t) \<Rightarrow>
      if b then init_kaiming_uniform t else init_constant t 0)"
  have dsnd: "map snd ds = concat (map (\<lambda>l. [weight l, bias l]) (dense_layers self))"
    by (simp add: ds_def map_concat comp_def)
  have par: "parameters self = rs @ map snd ds"
    by (simp add: parameters_def rs_def dsnd)
  have pl: "list_all (plain (heap w)) rs" "list_all (plain (heap w)) (map snd ds)"
    and di: "distinct (map storage rs)" "distinct (map storage (map snd ds))"
    and dj: "storage ` set rs \<inter> storage ` set (map snd ds) = {}"
    using po by (simp_all add: params_ok_def par image_image)
  have h0: "0 \<le> f64 (1 / real_of_int (hidden_size self))" using h by (simp add: f64_nonneg)
  have "0 \<le> k" unfolding k_def using h0 by (intro f64_nonneg) simp
  then have kk: "- k \<le> k" by simp
  define U where "U = (\<lambda>v. \<exists>j. v = uniform_value (f32 (- k)) (f32 k) (draws w j))"
  have eq: "initialize_weights self =
      seq (for_each rs (\<lambda>pam u. init_uniform pam (- k) k) ())
          (\<lambda>u. for_each ds (\<lambda>x u. wop x) ())"
    using h h0 by (simp add: initialize_weights_def Let_def k_def[symmetric] for_each_concat not_less
        dense_init_flat rs_def ds_def wop_def)
  \<comment> \<open>the loop over the recurrent parameters\<close>
  have "\<exists>H r. for_each rs (\<lambda>pam u. init_uniform pam (- k) k) () w = (Inr (), w\<lparr>heap := H, rng_pos := r\<rparr>)
      \<and> length H = length (heap w)
      \<and> (\<forall>s < length H. length (H ! s) = length (heap w ! s))
      \<and> (\<forall>s < length H. s \<notin> (\<lambda>x. storage (id x)) ` set rs \<longrightarrow> H ! s = heap w ! s)
      \<and> (\<forall>x \<in> set rs. list_all U (H ! storage (id x)))"
  proof (rule write_loop[where tgt = id and wop = "\<lambda>pam. init_uniform pam (- k) k"
        and dr = "draws w"])
    fix x and wa :: world
    assume "x \<in> set rs" "plain (heap wa) (id x)" "draws wa = draws w"
    then show "\<exists>vals r. init_uniform x (- k) k wa
          = (Inr (), wa\<lparr>heap := (heap wa)[storage (id x) := vals], rng_pos := r\<rparr>)
        \<and> length vals = numel (id x) \<and> list_all U vals"
      using init_uniform_step[of wa x "- k" k] kk by (simp add: U_def)
  next
    show "list_all (plain (heap w)) (map id rs)" using pl(1) by simp
    show "distinct (map (\<lambda>x. storage (id x)) rs)" using di(1) by simp
    show "draws w = draws w" by simp
  qed
  then obtain H1 r1 where
    r1: "for_each rs (\<lambda>pam u. init_uniform pam (- k) k) () w = (Inr (), w\<lparr>heap := H1, rng_pos := r1\<rparr>)"
    and l1: "length H1 = length (heap w)"
    and ll1: "\<And>s. s < length H1 \<Longrightarrow> length (H1 ! s) = length (heap w ! s)"
    and P1: "\<And>t. t \<in> set rs \<Longrightarrow> list_all U (H1 ! storage t)"
    by auto
  define w1 where "w1 = w\<lparr>heap := H1, rng_pos := r1\<rparr>"
  have keep1: "plain (heap w1) t" if "plain (heap w) t" for t
    using that l1 ll1[of "storage t"] by (simp add: plain_def w1_def)
  have ud1: "draws w1 = draws w" by (simp add: w1_def)
  \<comment> \<open>the loop over the dense layers\<close>
  have pl2: "list_all (plain (heap w1)) (map snd ds)"
    using pl(2) keep1 by (simp add: list_all_iff)
  have di2: "distinct (map (\<lambda>x. storage (snd x)) ds)"
    using di(2) by (simp add: comp_def)
  have two: "2 \<le> length (shape t)" if "(True, t) \<in> set ds" for t
    using that dims by (auto simp: ds_def list_all_iff)
  have step2: "\<exists>vals r. wop x w = (Inr (), w\<lparr>heap := (heap w)[storage (snd x) := vals], rng_pos := r\<rparr>)
          \<and> length vals = numel (snd x) \<and> (fst x \<or> list_all (\<lambda>v. v = 0) vals)"
    if "x \<in> set ds" "plain (heap w) (snd x)" for x w
  proof (cases x)
    case (Pair b t)
    show ?thesis
    proof (cases b)
      case True
      with init_kaiming_uniform_step[OF _ two[of t]] that(1,2) Pair
      show ?thesis by (simp add: wop_def)
    next
      case False
      with init_constant_step[of w t 0] that(2) Pair
      show ?thesis by (simp add: wop_def)
    qed
  qed
  have "\<exists>H r. for_each ds (\<lambda>x u. wop x) () w1 = (Inr (), w1\<lparr>heap := H, rng_pos := r\<rparr>)
      \<and> length H = length (heap w1)
      \<and> (\<forall>s < length H. length (H ! s) = length (heap w1 ! s))
      \<and> (\<forall>s < length H. s \<notin> (\<lambda>x. storage (snd x)) ` set ds \<longrightarrow> H ! s = heap w1 ! s)
      \<and> (\<forall>x \<in> set ds. fst x \<or> list_all (\<lambda>v. v = 0) (H ! storage (snd x)))"
  proof (rule write_loop[where tgt = snd and wop = wop and dr = "draws w"
        and P = "\<lambda>x vals. fst x \<or> list_all (\<lambda>v. v = 0) vals"])
    fix x and wa :: world
    assume a: "x \<in> set ds" "plain (heap wa) (snd x)" "draws wa = draws w"
    show "\<exists>vals r. wop x wa = (Inr (), wa\<lparr>heap := (heap wa)[storage (snd x) := vals], rng_pos := r\<rparr>)
          \<and> length vals = numel (snd x) \<and> (fst x \<or> list_all (\<lambda>v. v = 0) vals)"
      by (rule step2[OF a(1,2)])
  next
    show "list_all (plain (heap w1)) (map snd ds)" by (rule pl2)
    show "distinct (map (\<lambda>x. storage (snd x)) ds)" by (rule di2)
    show "draws w1 = draws w" by (rule ud1)
  qed
  then obtain H2 r2 where
    r2: "for_each ds (\<lambda>x u. wop x) () w1 = (Inr (), w1\<lparr>heap := H2, rng_pos := r2\<rparr>)"
    and l2: "length H2 = length (heap w1)"
    and ll2: "\<And>s. s < length H2 \<Longrightarrow> length (H2 ! s) = length (heap w1 ! s)"
    and un2: "\<And>s. s < length H2 \<Longrightarrow> s \<notin> (\<lambda>x. storage (snd x)) ` set ds \<Longrightarrow> H2 ! s = heap w1 ! s"
    and P2: "\<And>x. x \<in> set ds \<Longrightarrow> fst x \<or> list_all (\<lambda>v. v = 0) (H2 ! storage (snd x))"
    by blast
  define w2 where "w2 = w1\<lparr>heap := H2, rng_pos := r2\<rparr>"
  have keep2: "plain (heap w2) t" if "plain (heap w1) t" for t
    using that l2 ll2[of "storage t"] by (simp add: plain_def w2_def)
  have run: "initialize_weights self w = (Inr (), w2)"
    by (simp add: eq seq_def r1 w1_def[symmetric] r2 w2_def)
  have plall: "list_all (plain (heap w2)) (parameters self)"
    using po keep1 keep2 by (simp add: params_ok_def list_all_iff)
  have rec: "\<exists>j. v = uniform_value (f32 (- k)) (f32 k) (draws w j)"
    if "t \<in> set rs" "v \<in> set (tvals (heap w2) t)" for t v
  proof -
    have p: "plain (heap w2) t" using plall that(1) by (simp add: par list_all_iff)
    have "storage t \<notin> storage ` set (map snd ds)" using dj that(1) by auto
    then have "storage t \<notin> (\<lambda>x. storage (snd x)) ` set ds" by (simp add: image_image)
    moreover have "storage t < length H2" using p by (simp add: plain_def w2_def)
    ultimately have "H2 ! storage t = H1 ! storage t" using un2 by (simp add: w1_def)
    then have "tvals (heap w2) t = H1 ! storage t" using tvals_plain[OF p] by (simp add: w2_def)
    with P1[OF that(1)] that(2) show ?thesis by (simp add: list_all_iff U_def)
  qed
  have bia: "v = 0" if "l \<in> set (dense_layers self)" "v \<in> set (tvals (heap w2) (bias l))" for l v
  proof -
    have m: "(False, bias l) \<in> set ds" using that(1) by (auto simp: ds_def)
    then have "bias l \<in> set (map snd ds)" by force
    then have p: "plain (heap w2) (bias l)" using plall by (simp add: par list_all_iff)
    from P2[OF m] have "list_all (\<lambda>v. v = 0) (H2 ! storage (bias l))" by simp
    then show ?thesis using tvals_plain[OF p] that(2) by (simp add: w2_def list_all_iff)
  qed
  have "params_ok (heap w2) self" using plall po by (simp add: params_ok_def)
  moreover have "draws w2 = draws w" by (simp add: w2_def w1_def)
  ultimately show ?thesis using run rec bia by (auto simp: rs_def)
qed

lemma grows_refl: "grows w w"
  by (simp add: grows_def)

lemma grows_trans: "grows w w' \<Longrightarrow> grows w' w'' \<Longrightarrow> grows w w''"
  by (auto simp: grows_def)

lemma plain_grows: "plain (heap w) t \<Longrightarrow> grows w w' \<Longrightarrow> plain (heap w') t"
  by (auto simp: plain_def grows_def)

lemma length_fold_update:
  "length (fold (\<lambda>(k, v) st. st[off + k := v]) zs st) = length st"
  by (induction zs arbitrary: st) (auto split: prod.splits)

lemma length_write_vals_nth: "length (write_vals t vals H ! s) = length (H ! s)"
proof (cases "s = storage t \<and> s < length H")
  case True
  then show ?thesis by (simp add: write_vals_def length_fold_update)
next
  case False
  then show ?thesis
    by (cases "storage t < length H") (auto simp: write_vals_def list_update_beyond)
qed

lemma init_uniform_grows: "init_uniform t a b w = (Inr u, w') \<Longrightarrow> grows w w'"
  by (auto simp: init_uniform_def grows_def length_write_vals_nth split: if_splits)

lemma init_constant_grows: "init_constant t c w = (Inr u, w') \<Longrightarrow> grows w w'"
  by (auto simp: init_constant_def grows_def length_write_vals_nth)

lemma init_kaiming_uniform_grows: "init_kaiming_uniform t w = (Inr u, w') \<Longrightarrow> grows w w'"
  by (auto simp: init_kaiming_uniform_def Let_def ret_def raise_def grows_refl
      dest: init_uniform_grows split: if_splits)

lemma new_parameter_fresh:
  assumes "new_parameter sh k w = (Inr t, w')"
  shows "fresh_params (length (heap w)) (heap w') [t]" "grows w w'"
proof -
  from assms[unfolded new_parameter_def] obtain t0 w1 u where
    n: "new_tensor sh CPU (replicate (prod_list sh) 0) w = (Inr t0, w1)"
    and i: "init_uniform t0 (- k) k w1 = (Inr u, w')" and tt: "t = t0"
    by (auto dest!: seq_InrD simp: ret_def)
  from new_tensor_alloc[OF n] have a: "storage t0 = length (heap w)" "offset t0 = 0" "shape t0 = sh"
    "strides t0 = cstrides sh" "heap w1 = heap w @ [replicate (prod_list sh) 0]" by simp_all
  have p1: "plain (heap w1) t0" by (simp add: plain_def a numel_def)
  have g1: "grows w w1" by (simp add: grows_def a nth_append)
  have g2: "grows w1 w'" by (rule init_uniform_grows[OF i])
  show "grows w w'" by (rule grows_trans[OF g1 g2])
  show "fresh_params (length (heap w)) (heap w') [t]"
    using plain_grows[OF p1 g2] by (simp add: fresh_params_def tt a)
qed

lemma fresh_params_append:
  assumes "fresh_params n0 (heap w1) ts1" "grows w1 w2"
    and "fresh_params (length (heap w1)) (heap w2) ts2" "n0 \<le> length (heap w1)"
  shows "fresh_params n0 (heap w2) (ts1 @ ts2)"
proof -
  have lt: "storage t < length (heap w1)" if "t \<in> set ts1" for t
    using assms(1) that by (simp add: fresh_params_def list_all_iff plain_def)
  have ge: "length (heap w1) \<le> storage t" if "t \<in> set ts2" for t
    using assms(3) that by (simp add: fresh_params_def list_all_iff)
  have dj: "storage ` set ts1 \<inter> storage ` set ts2 = {}"
  proof (rule ccontr)
    assume "storage ` set ts1 \<inter> storage ` set ts2 \<noteq> {}"
    then obtain a b where "a \<in> set ts1" "b \<in> set ts2" "storage a = storage b" by auto
    with lt[of a] ge[of b] show False by simp
  qed
  have "list_all (plain (heap w2)) ts1"
    using assms(1,2) by (auto simp: fresh_params_def list_all_iff intro: plain_grows)
  moreover have "list_all (\<lambda>t. n0 \<le> storage t) ts2"
    using ge assms(4) by (auto simp: list_all_iff intro: le_trans)
  ultimately show ?thesis
    using assms(1,3) dj by (simp add: fresh_params_def)
qed

lemma fresh_params_Nil: "fresh_params n H []"
  by (simp add: fresh_params_def)

lemma comprehension_InrD:
  "comprehension (i # is) f w = (Inr vs, w') \<Longrightarrow>
     \<exists>v w1 vs'. f i w = (Inr v, w1) \<and> comprehension is f w1 = (Inr vs', w') \<and> vs = v # vs'"
  by (auto dest!: seq_InrD simp: ret_def)

lemma comprehension_fresh:
  assumes "\<And>i w v w'. f i w = (Inr v, w') \<Longrightarrow>
        fresh_params (length (heap w)) (heap w') (ps v) \<and> grows w w'"
    and "comprehension xs f w = (Inr vs, w')"
  shows "fresh_params (length (heap w)) (heap w') (concat (map ps vs)) \<and> grows w w'"
  using assms(2)
proof (induction xs arbitrary: w vs)
  case Nil
  then show ?case by (auto simp: ret_def fresh_params_Nil grows_refl)
next
  case (Cons i xs)
  from comprehension_InrD[OF Cons.prems] obtain v w1 vs' where
    a: "f i w = (Inr v, w1)" and b: "comprehension xs f w1 = (Inr vs', w')" and c: "vs = v # vs'"
    by blast
  from assms(1)[OF a] have f1: "fresh_params (length (heap w)) (heap w1) (ps v)" and g1: "grows w w1"
    by simp_all
  have le: "length (heap w) \<le> length (heap w1)" using g1 by (simp add: grows_def)
  from Cons.IH[OF b] have f2: "fresh_params (length (heap w1)) (heap w') (concat (map ps vs'))"
    and g2: "grows w1 w'" by simp_all
  show ?case
    using fresh_params_append[OF f1 g2 f2 le] grows_trans[OF g1 g2] by (simp add: c)
qed

lemma Linear_init_fresh:
  assumes "Linear_init n_in n_out w = (Inr l, w')"
  shows "fresh_params (length (heap w)) (heap w') [weight l, bias l] \<and> grows w w'"
proof -
  define k where "k = (if n_in = 0 then 0 else 1 / sqrt (real_of_int n_in))"
  from assms obtain wt w1 bs where
    a: "new_parameter [nat n_out, nat n_in] k w = (Inr wt, w1)"
    and b: "new_parameter [nat n_out] k w1 = (Inr bs, w')"
    and l: "weight l = wt" "bias l = bs"
    by (auto simp: Linear_init_def Let_def k_def raise_def ret_def dest!: seq_InrD split: if_splits)
  note fa = new_parameter_fresh[OF a] and fb = new_parameter_fresh[OF b]
  have le1: "length (heap w) \<le> length (heap w1)" using fa(2) by (simp add: grows_def)
  have "fresh_params (length (heap w)) (heap w') ([wt] @ [bs])"
    by (rule fresh_params_append[OF fa(1) fb(2) fb(1) le1])
  then show ?thesis using grows_trans[OF fa(2) fb(2)] by (simp add: l)
qed

lemma LSTM_layer_init_fresh:
  assumes "LSTM_layer_init isz hsz w = (Inr l, w')"
  shows "fresh_params (length (heap w)) (heap w') [weight_ih l, weight_hh l, bias_ih l, bias_hh l]
      \<and> grows w w'"
proof -
  define k where "k = 1 / sqrt (real hsz)"
  from assms obtain a w1 b w2 c w3 d where
    a: "new_parameter [4 * hsz, isz] k w = (Inr a, w1)"
    and b: "new_parameter [4 * hsz, hsz] k w1 = (Inr b, w2)"
    and c: "new_parameter [4 * hsz] k w2 = (Inr c, w3)"
    and d: "new_parameter [4 * hsz] k w3 = (Inr d, w')"
    and l: "weight_ih l = a" "weight_hh l = b" "bias_ih l = c" "bias_hh l = d"
    by (auto simp: LSTM_layer_init_def Let_def k_def ret_def dest!: seq_InrD)
  note fa = new_parameter_fresh[OF a] and fb = new_parameter_fresh[OF b]
    and fc = new_parameter_fresh[OF c] and fd = new_parameter_fresh[OF d]
  have le1: "length (heap w) \<le> length (heap w1)" using fa(2) by (simp add: grows_def)
  have le2: "length (heap w) \<le> length (heap w2)" using le1 fb(2) by (simp add: grows_def)
  have le3: "length (heap w) \<le> length (heap w3)" using le2 fc(2) by (simp add: grows_def)
  have 1: "fresh_params (length (heap w)) (heap w2) ([a] @ [b])"
    by (rule fresh_params_append[OF fa(1) fb(2) fb(1) le1])
  have 2: "fresh_params (length (heap w)) (heap w3) (([a] @ [b]) @ [c])"
    by (rule fresh_params_append[OF 1 fc(2) fc(1) le2])
  have 3: "fresh_params (length (heap w)) (heap w') ((([a] @ [b]) @ [c]) @ [d])"
    by (rule fresh_params_append[OF 2 fd(2) fd(1) le3])
  have "grows w w'"
    by (rule grows_trans[OF grows_trans[OF grows_trans[OF fa(2) fb(2)] fc(2)] fd(2)])
  with 3 show ?thesis by (simp add: l)
qed

lemma LSTM_init_fresh:
  assumes "LSTM_init isz hsz nl w = (Inr m, w')"
  shows "fresh_params (length (heap w)) (heap w') (concat (all_weights m)) \<and> grows w w'"
proof -
  from assms obtain ls where
    c: "comprehension [0..<nat nl]
          (\<lambda>l. LSTM_layer_init (if l = 0 then nat isz else nat hsz) (nat hsz)) w = (Inr ls, w')"
    and m: "lstm_layers m = ls"
    by (auto simp: LSTM_init_def raise_def ret_def dest!: seq_InrD split: if_splits)
  have "fresh_params (length (heap w)) (heap w')
          (concat (map (\<lambda>l. [weight_ih l, weight_hh l, bias_ih l, bias_hh l]) ls)) \<and> grows w w'"
    by (rule comprehension_fresh[OF _ c]) (rule LSTM_layer_init_fresh)
  then show ?thesis by (simp add: all_weights_def m)
qed

lemma dense_comprehension_fresh:
  assumes "comprehension is (\<lambda>i. Linear_init (df ! (i - 1)) (df ! i)) w = (Inr ls, w')"
  shows "fresh_params (length (heap w)) (heap w') (concat (map (\<lambda>l. [weight l, bias l]) ls))
      \<and> grows w w'"
  by (rule comprehension_fresh[OF _ assms]) (rule Linear_init_fresh)

lemma initialize_weights_grows:
  assumes "initialize_weights self w = (Inr u, w')"
  shows "grows w w'"
proof -
  define k where "k = f64 (sqrt (f64 (1 / real_of_int (hidden_size self))))"
  from assms obtain u1 w1 where
    a: "for_each (all_weights (rnn self))
          (\<lambda>parameters u. for_each parameters (\<lambda>pam u. init_uniform pam (- k) k) ()) () w = (Inr u1, w1)"
    and b: "for_each (dense_layers self)
          (\<lambda>dense_layer u. seq (init_kaiming_uniform (weight dense_layer))
                                    (\<lambda>u. init_constant (bias dense_layer) 0)) () w1 = (Inr u, w')"
    by (auto simp: initialize_weights_def Let_def k_def raise_def dest!: seq_InrD split: if_splits)
  have inner: "grows w0 wb" if "for_each ps (\<lambda>pam u. init_uniform pam (- k) k) () wa = (Inr ub, wb)"
      "grows w0 wa" for ps w0 wa wb ub
    by (rule for_each_inv[where I = "\<lambda>s w. grows w0 w", OF _ that])
      (blast intro: grows_trans init_uniform_grows)
  have g1: "grows w w1"
    by (rule for_each_inv[where I = "\<lambda>s wa. grows w wa", OF _ a grows_refl]) (rule inner)
  have g2: "grows w1 w'"
  proof (rule for_each_inv[where I = "\<lambda>s wa. grows w1 wa", OF _ b grows_refl])
    fix i s wa s' wb
    assume r: "seq (init_kaiming_uniform (weight i)) (\<lambda>u. init_constant (bias i) 0) wa = (Inr s', wb)"
      and g: "grows w1 wa"
    from seq_InrD[OF r] obtain v wm where "init_kaiming_uniform (weight i) wa = (Inr v, wm)"
      "init_constant (bias i) 0 wm = (Inr s', wb)" by blast
    then show "grows w1 wb"
      using g by (blast intro: grows_trans init_kaiming_uniform_grows init_constant_grows)
  qed
  show ?thesis by (rule grows_trans[OF g1 g2])
qed

lemma list_new_heap: "list_new xs w = (Inr a, w') \<Longrightarrow> heap w' = heap w"
  by (auto simp: list_new_def)

lemma list_get_heap: "list_get a w = (Inr xs, w') \<Longrightarrow> heap w' = heap w"
  by (auto simp: list_get_def ret_def)

lemma list_insert0_heap: "list_insert0 a v w = (Inr u, w') \<Longrightarrow> heap w' = heap w"
  by (auto simp: list_insert0_def)

lemma list_add0_heap: "list_add0 a v w = (Inr u, w') \<Longrightarrow> heap w' = heap w"
  by (auto simp: list_add0_def raise_def split: list.splits if_splits)

lemma Dropout_init_heap: "Dropout_init pr w = (Inr d, w') \<Longrightarrow> heap w' = heap w"
  by (auto simp: Dropout_init_def raise_def ret_def split: if_splits)

text \<open>The constructor gives every parameter a storage of its own.\<close>

lemma RNNet_init_params:
  assumes "RNNet_init in_channels num_bins hidden_sz num_rnn_layers rnn_dropout dense_features add_yl w
      = (Inr net, w')"
  shows "params_ok (heap w') net"
proof -
  from assms[unfolded RNNet_init_def] obtain a w1 u2 w2 u3 w3 dr w4 lstm w5 df w6 layers w7 u8 where
    s1: "(case dense_features of None \<Rightarrow> list_new [256, 1] | Some a \<Rightarrow> ret a) w = (Inr a, w1)"
    and s2: "list_insert0 a hidden_sz w1 = (Inr u2, w2)"
    and s3: "(if add_yl then list_add0 a 3 else ret ()) w2 = (Inr u3, w3)"
    and s4: "Dropout_init rnn_dropout w3 = (Inr dr, w4)"
    and s5: "LSTM_init (in_channels * num_bins) hidden_sz num_rnn_layers w4 = (Inr lstm, w5)"
    and s6: "list_get a w5 = (Inr df, w6)"
    and s7: "comprehension [1..<length df] (\<lambda>i. Linear_init (df ! (i - 1)) (df ! i)) w6 = (Inr layers, w7)"
    and s8: "initialize_weights \<lparr>add_year_loc = add_yl, dropout = dr, rnn = lstm,
                               hidden_size = hidden_sz, dense_layers = layers\<rparr> w7 = (Inr u8, w')"
    and n: "net = \<lparr>add_year_loc = add_yl, dropout = dr, rnn = lstm,
                               hidden_size = hidden_sz, dense_layers = layers\<rparr>"
    by (auto dest!: seq_InrD simp: ret_def)
  have h6: "heap w6 = heap w5" by (rule list_get_heap[OF s6])
  note f5 = LSTM_init_fresh[OF s5]
  note f7 = dense_comprehension_fresh[OF s7]
  have f5': "fresh_params (length (heap w4)) (heap w6) (concat (all_weights lstm))"
    using f5 by (simp add: h6)
  have le: "length (heap w4) \<le> length (heap w6)" using f5 by (simp add: grows_def h6)
  have "fresh_params (length (heap w4)) (heap w7)
      (concat (all_weights lstm) @ concat (map (\<lambda>l. [weight l, bias l]) layers))"
    using fresh_params_append[OF f5' _ _ le] f7 by blast
  then have p7: "list_all (plain (heap w7)) (parameters net)" "distinct (map storage (parameters net))"
    by (simp_all add: fresh_params_def parameters_def n)
  have "list_all (plain (heap w')) (parameters net)"
    using p7(1) initialize_weights_grows[OF s8] by (auto simp: list_all_iff intro: plain_grows)
  with p7(2) show ?thesis by (simp add: params_ok_def)
qed

lemma example_net_params:
  "params_ok (heap example_net_world) example_net" "unit_draws example_net_world"
  "0 < hidden_size example_net"
  "list_all (\<lambda>l. length (shape (weight l)) = 2) (dense_layers example_net)"
proof -
  show "params_ok (heap example_net_world) example_net"
    by (rule RNNet_init_params[OF example_net_init(1)])
  have "returns (RNNet_init 1 1 2 1 (1 / 4) None False) example_world
     (\<lambda>net w'. net_ok CPU (map nat [2, 256, 1]) net \<and> add_year_loc net = False
        \<and> length (dense_layers net) = length [256, 1 :: int]
        \<and> lstm_input_size (rnn net) = nat (1 * 1) \<and> hidden_size net = 2
        \<and> dropout net = \<lparr>drop_p = 1 / 4, training = True\<rparr>
        \<and> pylists w' = (pylists example_world)(pyfresh example_world := [2, 256, 1])
        \<and> pyfresh w' = (case None :: nat option of None \<Rightarrow> Suc (pyfresh example_world) | Some a \<Rightarrow> pyfresh example_world)
        \<and> draws w' = draws example_world \<and> cuda_current w' = cuda_current example_world
        \<and> length (heap example_world) \<le> length (heap w'))"
    by (rule RNNet_init_ok) simp_all
  from returnsD[OF this] have "hidden_size example_net = 2" "draws example_net_world = draws example_world"
    by (auto simp: example_net_init(1))
  then show "unit_draws example_net_world" "0 < hidden_size example_net"
    by (simp_all add: unit_draws_def example_world_def)
  show "list_all (\<lambda>l. length (shape (weight l)) = 2) (dense_layers example_net)"
    using example_net_init(2) by (auto simp: net_ok_def list_all_iff linear_ok_def)
qed

lemma new_parameter_shape: "new_parameter sh k w = (Inr t, w') \<Longrightarrow> shape t = sh"
  by (auto simp: new_parameter_def ret_def dest!: seq_InrD dest: new_tensor_alloc)

lemma LSTM_layer_init_shape:
  assumes "LSTM_layer_init isz hsz w = (Inr l, w')"
  shows "shape (weight_ih l) = [4 * hsz, isz]"
proof -
  from assms obtain a w1 where
    a: "new_parameter [4 * hsz, isz] (1 / sqrt (real hsz)) w = (Inr a, w1)" and l: "weight_ih l = a"
    by (auto simp: LSTM_layer_init_def Let_def ret_def dest!: seq_InrD)
  show ?thesis using new_parameter_shape[OF a] by (simp add: l)
qed

text \<open>With one recurrent layer, \<^verbatim>\<open>rnn.all_weights\<close> is one list of four tensors, the first of
  shape \<open>[4 * hidden_size, input_size]\<close>.\<close>

lemma RNNet_init_first_weight:
  assumes "RNNet_init in_channels num_bins hidden_sz 1 rnn_dropout dense_features add_yl w
      = (Inr net, w')"
  shows "\<exists>l. lstm_layers (rnn net) = [l]
      \<and> shape (weight_ih l) = [4 * nat hidden_sz, nat (in_channels * num_bins)]"
proof -
  from assms[unfolded RNNet_init_def] obtain w4 lstm w5 dr layers where
    s5: "LSTM_init (in_channels * num_bins) hidden_sz 1 w4 = (Inr lstm, w5)"
    and n: "net = \<lparr>add_year_loc = add_yl, dropout = dr, rnn = lstm,
                               hidden_size = hidden_sz, dense_layers = layers\<rparr>"
    by (auto dest!: seq_InrD simp: ret_def)
  from s5 obtain l where
    l: "LSTM_layer_init (nat (in_channels * num_bins)) (nat hidden_sz) w4 = (Inr l, w5)"
    and m: "lstm_layers lstm = [l]"
    by (auto simp: LSTM_init_def raise_def ret_def dest!: seq_InrD split: if_splits)
  show ?thesis using LSTM_layer_init_shape[OF l] by (simp add: n m)
qed

lemma initialize_weights_flat:
  assumes "0 < hidden_size self"
  shows "initialize_weights self =
      seq (for_each (concat (all_weights (rnn self)))
             (\<lambda>pam u. init_uniform pam (- f64 (sqrt (f64 (1 / real_of_int (hidden_size self)))))
                                        (f64 (sqrt (f64 (1 / real_of_int (hidden_size self)))))) ())
          (\<lambda>u. for_each (concat (map (\<lambda>l. [(True, weight l), (False, bias l)]) (dense_layers self)))
             (\<lambda>x u. (case x of (b, t) \<Rightarrow> if b then init_kaiming_uniform t else init_constant t 0)) ())"
proof -
  have h0: "0 \<le> f64 (1 / real_of_int (hidden_size self))" using assms by (simp add: f64_nonneg)
  show ?thesis
    using assms h0 by (simp add: initialize_weights_def Let_def for_each_concat dense_init_flat not_less)
qed

text \<open>The first tensor of \<^verbatim>\<open>rnn.all_weights\<close> receives the generator's next draws, and nothing
  later in \<^verbatim>\<open>initialize_weights\<close> writes to it.\<close>

lemma initialize_weights_first:
  assumes h: "0 < hidden_size self"
    and dims: "list_all (\<lambda>l. length (shape (weight l)) = 2) (dense_layers self)"
    and po: "params_ok (heap w) self"
    and aw: "concat (all_weights (rnn self)) = t0 # rest"
  defines "k \<equiv> f64 (sqrt (f64 (1 / real_of_int (hidden_size self))))"
  shows "\<exists>w'. initialize_weights self w = (Inr (), w')
      \<and> tvals (heap w') t0
          = map (\<lambda>j. uniform_value (f32 (- k)) (f32 k) (draws w (rng_pos w + j))) [0..<numel t0]"
proof -
  define ds where "ds = concat (map (\<lambda>l. [(True, weight l), (False, bias l)]) (dense_layers self))"
  define wop where "wop = (\<lambda>x :: bool \<times> tensor. case x of (b, t) \<Rightarrow>
      if b then init_kaiming_uniform t else init_constant t 0)"
  define vals0 where
    "vals0 = map (\<lambda>j. uniform_value (f32 (- k)) (f32 k) (draws w (rng_pos w + j))) [0..<numel t0]"
  have dsnd: "map snd ds = concat (map (\<lambda>l. [weight l, bias l]) (dense_layers self))"
    by (simp add: ds_def map_concat comp_def)
  have par: "parameters self = t0 # rest @ map snd ds"
    by (simp add: parameters_def aw dsnd)
  have p0: "plain (heap w) t0" and plr: "list_all (plain (heap w)) rest"
    and pld: "list_all (plain (heap w)) (map snd ds)"
    and dir: "distinct (map storage rest)" and did: "distinct (map storage (map snd ds))"
    and n0r: "storage t0 \<notin> storage ` set rest" and n0d: "storage t0 \<notin> storage ` set (map snd ds)"
    using po by (auto simp add: params_ok_def par image_image)
  have h0: "0 \<le> f64 (1 / real_of_int (hidden_size self))" using h by (simp add: f64_nonneg)
  have "0 \<le> k" unfolding k_def using h0 by (intro f64_nonneg) simp
  then have kk: "- k \<le> k" by simp
  have eq: "initialize_weights self =
      seq (for_each (t0 # rest) (\<lambda>pam u. init_uniform pam (- k) k) ())
          (\<lambda>u. for_each ds (\<lambda>x u. wop x) ())"
    by (simp only: initialize_weights_flat[OF h] aw k_def ds_def wop_def)
  \<comment> \<open>the first write\<close>
  have l0: "length vals0 = numel t0" by (simp add: vals0_def)
  define w0 where "w0 = w\<lparr>heap := (heap w)[storage t0 := vals0], rng_pos := rng_pos w + numel t0\<rparr>"
  have s0: "init_uniform t0 (- k) k w = (Inr (), w0)"
    using kk write_vals_plain[OF p0 l0] by (simp add: init_uniform_def vals0_def w0_def)
  have st0: "storage t0 < length (heap w)" "length (heap w ! storage t0) = numel t0"
    using p0 by (simp_all add: plain_def)
  have keep0: "plain (heap w0) t" if "plain (heap w) t" for t
    using that st0 l0 by (cases "storage t = storage t0") (simp_all add: plain_def w0_def)
  have at0: "heap w0 ! storage t0 = vals0" using st0 by (simp add: w0_def)
  \<comment> \<open>the other recurrent tensors\<close>
  have "\<exists>H r. for_each rest (\<lambda>pam u. init_uniform pam (- k) k) () w0 = (Inr (), w0\<lparr>heap := H, rng_pos := r\<rparr>)
      \<and> length H = length (heap w0)
      \<and> (\<forall>s < length H. length (H ! s) = length (heap w0 ! s))
      \<and> (\<forall>s < length H. s \<notin> (\<lambda>x. storage (id x)) ` set rest \<longrightarrow> H ! s = heap w0 ! s)
      \<and> (\<forall>x \<in> set rest. True)"
  proof (rule write_loop[where tgt = id and wop = "\<lambda>pam. init_uniform pam (- k) k"
        and dr = "draws w" and P = "\<lambda>x vals. True"])
    fix x and wa :: world
    assume "x \<in> set rest" "plain (heap wa) (id x)" "draws wa = draws w"
    then show "\<exists>vals r. init_uniform x (- k) k wa
          = (Inr (), wa\<lparr>heap := (heap wa)[storage (id x) := vals], rng_pos := r\<rparr>)
        \<and> length vals = numel (id x) \<and> True"
      using init_uniform_step[of wa x "- k" k] kk by auto
  next
    show "list_all (plain (heap w0)) (map id rest)" using plr keep0 by (simp add: list_all_iff)
    show "distinct (map (\<lambda>x. storage (id x)) rest)" using dir by simp
    show "draws w0 = draws w" by (simp add: w0_def)
  qed
  then obtain H1 r1 where
    r1: "for_each rest (\<lambda>pam u. init_uniform pam (- k) k) () w0 = (Inr (), w0\<lparr>heap := H1, rng_pos := r1\<rparr>)"
    and l1: "length H1 = length (heap w0)"
    and ll1: "\<And>s. s < length H1 \<Longrightarrow> length (H1 ! s) = length (heap w0 ! s)"
    and un1: "\<And>s. s < length H1 \<Longrightarrow> s \<notin> (\<lambda>x. storage (id x)) ` set rest \<Longrightarrow> H1 ! s = heap w0 ! s"
    by blast
  define w1 where "w1 = w0\<lparr>heap := H1, rng_pos := r1\<rparr>"
  have keep1: "plain (heap w1) t" if "plain (heap w0) t" for t
    using that l1 ll1[of "storage t"] by (simp add: plain_def w1_def)
  have at1: "heap w1 ! storage t0 = vals0"
    using un1[of "storage t0"] n0r st0(1) l1 at0 by (simp add: w1_def w0_def)
  \<comment> \<open>the dense layers\<close>
  have two: "2 \<le> length (shape t)" if "(True, t) \<in> set ds" for t
    using that dims by (auto simp: ds_def list_all_iff)
  have step2: "\<exists>vals r. wop x w = (Inr (), w\<lparr>heap := (heap w)[storage (snd x) := vals], rng_pos := r\<rparr>)
          \<and> length vals = numel (snd x) \<and> True"
    if "x \<in> set ds" "plain (heap w) (snd x)" for x w
  proof (cases x)
    case (Pair b t)
    show ?thesis
    proof (cases b)
      case True
      with init_kaiming_uniform_step[OF _ two[of t]] that(1,2) Pair
      show ?thesis by (simp add: wop_def)
    next
      case False
      with init_constant_step[of w t 0] that(2) Pair
      show ?thesis by (auto simp add: wop_def)
    qed
  qed
  have "\<exists>H r. for_each ds (\<lambda>x u. wop x) () w1 = (Inr (), w1\<lparr>heap := H, rng_pos := r\<rparr>)
      \<and> length H = length (heap w1)
      \<and> (\<forall>s < length H. length (H ! s) = length (heap w1 ! s))
      \<and> (\<forall>s < length H. s \<notin> (\<lambda>x. storage (snd x)) ` set ds \<longrightarrow> H ! s = heap w1 ! s)
      \<and> (\<forall>x \<in> set ds. True)"
  proof (rule write_loop[where tgt = snd and wop = wop and dr = "draws w" and P = "\<lambda>x vals. True"])
    fix x and wa :: world
    assume a: "x \<in> set ds" "plain (heap wa) (snd x)" "draws wa = draws w"
    show "\<exists>vals r. wop x wa = (Inr (), wa\<lparr>heap := (heap wa)[storage (snd x) := vals], rng_pos := r\<rparr>)
          \<and> length vals = numel (snd x) \<and> True"
      by (rule step2[OF a(1,2)])
  next
    show "list_all (plain (heap w1)) (map snd ds)" using pld keep0 keep1 by (simp add: list_all_iff)
    show "distinct (map (\<lambda>x. storage (snd x)) ds)" using did by (simp add: comp_def)
    show "draws w1 = draws w" by (simp add: w1_def w0_def)
  qed
  then obtain H2 r2 where
    r2: "for_each ds (\<lambda>x u. wop x) () w1 = (Inr (), w1\<lparr>heap := H2, rng_pos := r2\<rparr>)"
    and l2: "length H2 = length (heap w1)"
    and ll2: "\<And>s. s < length H2 \<Longrightarrow> length (H2 ! s) = length (heap w1 ! s)"
    and un2: "\<And>s. s < length H2 \<Longrightarrow> s \<notin> (\<lambda>x. storage (snd x)) ` set ds \<Longrightarrow> H2 ! s = heap w1 ! s"
    by blast
  define w2 where "w2 = w1\<lparr>heap := H2, rng_pos := r2\<rparr>"
  have run: "initialize_weights self w = (Inr (), w2)"
    by (simp add: eq seq_def s0 r1 w1_def[symmetric] r2 w2_def)
  have "storage t0 \<notin> (\<lambda>x. storage (snd x)) ` set ds" using n0d by (simp add: image_image)
  moreover have "storage t0 < length H2" using st0(1) l2 l1 by (simp add: w1_def w0_def)
  ultimately have at2: "heap w2 ! storage t0 = vals0" using un2[of "storage t0"] at1 by (simp add: w2_def)
  have "plain (heap w2) t0"
    using keep1[OF keep0[OF p0]] l2 ll2[of "storage t0"] by (simp add: plain_def w2_def)
  from tvals_plain[OF this] have "tvals (heap w2) t0 = vals0" by (simp add: at2)
  with run show ?thesis by (simp add: vals0_def)
qed

lemma model100_init:
  "\<exists>w. RNNModel_init 1 1 100 (1 / 4) None False example_world = (Inr model100, w)
     \<and> RNNet_init 1 1 100 1 (1 / 4) None False example_world = (Inr (model model100), w)
     \<and> model100_world = w\<lparr>draws := (\<lambda>k. if k = rng_pos w then 0 else 1 / 2)\<rparr>"
  "hidden_size (model model100) = 100"
  "list_all (\<lambda>l. length (shape (weight l)) = 2) (dense_layers (model model100))"
proof -
  have "returns (RNNet_init 1 1 100 1 (1 / 4) None False) example_world
     (\<lambda>net w'. net_ok CPU (map nat [100, 256, 1]) net \<and> add_year_loc net = False
        \<and> length (dense_layers net) = length [256, 1 :: int]
        \<and> lstm_input_size (rnn net) = nat (1 * 1) \<and> hidden_size net = 100
        \<and> dropout net = \<lparr>drop_p = 1 / 4, training = True\<rparr>
        \<and> pylists w' = (pylists example_world)(pyfresh example_world := [100, 256, 1])
        \<and> pyfresh w' = (case None :: nat option of None \<Rightarrow> Suc (pyfresh example_world) | Some a \<Rightarrow> pyfresh example_world)
        \<and> draws w' = draws example_world \<and> cuda_current w' = cuda_current example_world
        \<and> length (heap example_world) \<le> length (heap w'))"
    by (rule RNNet_init_ok) simp_all
  from returnsD[OF this] obtain net w where
    r: "RNNet_init 1 1 100 1 (1 / 4) None False example_world = (Inr net, w)"
    and p: "net_ok CPU [100, 256, 1] net" "hidden_size net = 100"
    by auto
  have m: "RNNModel_init 1 1 100 (1 / 4) None False example_world
      = (Inr \<lparr>model = net, model_weight = ''dense_layers.'' @ str_int (2 - 1) @ ''.weight'',
          model_bias = ''dense_layers.'' @ str_int (2 - 1) @ ''.bias'',
          model_type = ''rnn''\<rparr>, w)"
    by (simp add: RNNModel_init_def seq_def r ret_def)
  have mm: "model model100 = net" by (simp add: model100_def m)
  have "model100_world = w\<lparr>draws := (\<lambda>k. if k = rng_pos w then 0 else 1 / 2)\<rparr>"
    by (simp add: model100_world_def m Let_def)
  moreover have "RNNModel_init 1 1 100 (1 / 4) None False example_world = (Inr model100, w)"
    by (simp add: model100_def m)
  ultimately show "\<exists>w. RNNModel_init 1 1 100 (1 / 4) None False example_world = (Inr model100, w)
     \<and> RNNet_init 1 1 100 1 (1 / 4) None False example_world = (Inr (model model100), w)
     \<and> model100_world = w\<lparr>draws := (\<lambda>k. if k = rng_pos w then 0 else 1 / 2)\<rparr>"
    using r mm by blast
  show "hidden_size (model model100) = 100" by (simp add: mm p(2))
  show "list_all (\<lambda>l. length (shape (weight l)) = 2) (dense_layers (model model100))"
    using p(1) by (auto simp: mm net_ok_def list_all_iff linear_ok_def)
qed

lemma sqrt_k_100: "f64 (sqrt (f64 (1 / real_of_int 100))) = 3602879701896397 / 2 ^ 55"
  using f64_sqrt_hundredth by (simp add: f64_hundredth)

lemma f32_sqrt_k_100: "f32 (f64 (sqrt (f64 (1 / real_of_int 100)))) = 13421773 / 2 ^ 27"
  by (simp only: sqrt_k_100 f32_tenth)

section \<open>The ranges after reinitialisation\<close>

text \<open>
  Claim C4, as the source has it. The bound that \<^verbatim>\<open>uniform_\<close> receives is the Python float
  \<^verbatim>\<open>sqrt_k\<close>, and the library casts it to float32, the type of the parameters: for
  \<^verbatim>\<open>hidden_size = 100\<close> that is 13421773 / 2^27 = 0.100000001490116..., which is more than the
  square root of 1/100 (and more than \<^verbatim>\<open>sqrt_k\<close> itself). On the model built by
  \<^verbatim>\<open>RNNModel(in_channels=1, num_bins=1, hidden_size=100, rnn_dropout=0.25)\<close>, with a generator
  whose next draw is 0, \<^verbatim>\<open>reinitialize_model\<close> returns and leaves minus that number as the
  first of the 400 elements of the first recurrent tensor: below the claim's interval.
\<close>

theorem C4_float32_bound_outside:
  "fst (reinitialize_model model100 None model100_world) = Inr ()
   \<and> hidden_size (model model100) = 100
   \<and> first_weight100 \<in> set (concat (all_weights (rnn (model model100))))
   \<and> length (tvals (heap (snd (reinitialize_model model100 None model100_world))) first_weight100) = 400
   \<and> hd (tvals (heap (snd (reinitialize_model model100 None model100_world))) first_weight100)
        = - (13421773 / 2 ^ 27)
   \<and> - (13421773 / 2 ^ 27) < - sqrt (1 / real_of_int (hidden_size (model model100)))
   \<and> - (13421773 / 2 ^ 27) < - f64 (sqrt (f64 (1 / real_of_int (hidden_size (model model100)))))"
proof -
  from model100_init(1) obtain w0 where
    r: "RNNet_init 1 1 100 1 (1 / 4) None False example_world = (Inr (model model100), w0)"
    and mw: "model100_world = w0\<lparr>draws := (\<lambda>k. if k = rng_pos w0 then 0 else 1 / 2)\<rparr>"
    by blast
  note hs = model100_init(2)
  have h: "0 < hidden_size (model model100)" by (simp add: hs)
  have po: "params_ok (heap model100_world) (model model100)"
    using RNNet_init_params[OF r] by (simp add: mw)
  from RNNet_init_first_weight[OF r] obtain l where
    l: "lstm_layers (rnn (model model100)) = [l]" and sh: "shape (weight_ih l) = [400, 1]"
    by auto
  have aw: "concat (all_weights (rnn (model model100))) = weight_ih l # [weight_hh l, bias_ih l, bias_hh l]"
    by (simp add: all_weights_def l)
  have fw: "first_weight100 = weight_ih l" by (simp add: first_weight100_def all_weights_def l)
  have n: "numel (weight_ih l) = 400" by (simp add: numel_def sh)
  from initialize_weights_first[OF h model100_init(3) po aw] obtain w' where
    run: "initialize_weights (model model100) model100_world = (Inr (), w')"
    and tv: "tvals (heap w') (weight_ih l)
          = map (\<lambda>j. uniform_value (f32 (- f64 (sqrt (f64 (1 / real_of_int (hidden_size (model model100)))))))
                        (f32 (f64 (sqrt (f64 (1 / real_of_int (hidden_size (model model100)))))))
                        (draws model100_world (rng_pos model100_world + j))) [0..<numel (weight_ih l)]"
    by blast
  have re: "reinitialize_model model100 None model100_world = (Inr (), w')"
    by (simp add: reinitialize_model_def run)
  have u: "[0..<400] = 0 # [Suc 0..<400]" by (rule upt_conv_Cons) simp
  have d0: "draws model100_world (rng_pos model100_world) = 0" by (simp add: mw)
  have "hd (tvals (heap w') (weight_ih l))
      = uniform_value (f32 (- f64 (sqrt (f64 (1 / real_of_int 100))))) (f32 (f64 (sqrt (f64 (1 / real_of_int 100))))) 0"
    by (simp only: tv n u list.map list.sel hs add_0_right d0)
  also have "\<dots> = f32 (- f64 (sqrt (f64 (1 / real_of_int 100))))" by (rule uniform_value_0)
  also have "\<dots> = - (13421773 / 2 ^ 27)" by (simp only: f32_minus f32_sqrt_k_100)
  finally have e: "hd (tvals (heap w') (weight_ih l)) = - (13421773 / 2 ^ 27)" .
  have len: "length (tvals (heap w') (weight_ih l)) = 400" by (simp add: tv n)
  have "sqrt (1 / real_of_int 100) = 1 / 10"
  proof -
    have "sqrt (1 / real_of_int 100) = sqrt ((1 / 10)\<^sup>2)" by (simp add: power2_eq_square)
    also have "\<dots> = 1 / 10" by (simp only: real_sqrt_abs)
    finally show ?thesis .
  qed
  then have c1: "- (13421773 / 2 ^ 27) < - sqrt (1 / real_of_int (hidden_size (model model100)))"
    by (simp only: hs) simp
  have c2: "- (13421773 / 2 ^ 27) < - f64 (sqrt (f64 (1 / real_of_int (hidden_size (model model100)))))"
    by (simp only: hs sqrt_k_100) simp
  have mem: "first_weight100 \<in> set (concat (all_weights (rnn (model model100))))"
    by (simp add: fw aw)
  show ?thesis using re hs mem len e c1 c2 by (simp add: fw)
qed

text \<open>
  Claim C4, amended. On a network with a positive hidden size whose parameters are what the
  constructor made them (each the whole of a storage of its own, the dense weights
  two-dimensional), whatever the generator draws from the unit interval:
  \<^verbatim>\<open>reinitialize_model\<close>, which is \<^verbatim>\<open>initialize_weights\<close> on the network, returns, and then
  every element of every tensor of the recurrent layer lies between minus and plus the
  float32 cast of \<^verbatim>\<open>sqrt_k = math.sqrt(1 / hidden_size)\<close>, and every element of every dense
  bias is 0.
\<close>

theorem C4_reinitialize_float32_ranges:
  assumes "0 < hidden_size (model m)"
    and "list_all (\<lambda>l. length (shape (weight l)) = 2) (dense_layers (model m))"
    and "params_ok (heap w) (model m)"
    and "unit_draws w"
  shows "\<exists>w'. reinitialize_model m time w = (Inr (), w')
      \<and> initialize_weights (model m) w = (Inr (), w')
      \<and> (\<forall>t \<in> set (concat (all_weights (rnn (model m)))). \<forall>v \<in> set (tvals (heap w') t).
            - f32 (f64 (sqrt (f64 (1 / real_of_int (hidden_size (model m)))))) \<le> v
            \<and> v \<le> f32 (f64 (sqrt (f64 (1 / real_of_int (hidden_size (model m)))))))
      \<and> (\<forall>l \<in> set (dense_layers (model m)). \<forall>v \<in> set (tvals (heap w') (bias l)). v = 0)"
proof -
  let ?k = "f64 (sqrt (f64 (1 / real_of_int (hidden_size (model m)))))"
  have h0: "0 \<le> f64 (1 / real_of_int (hidden_size (model m)))" using assms(1) by (simp add: f64_nonneg)
  have k0: "0 \<le> ?k" using h0 by (intro f64_nonneg) simp
  from initialize_weights_values[OF assms(1-3)] obtain w' where
    run: "initialize_weights (model m) w = (Inr (), w')"
    and rec: "\<forall>t \<in> set (concat (all_weights (rnn (model m)))). \<forall>v \<in> set (tvals (heap w') t).
        \<exists>j. v = uniform_value (f32 (- ?k)) (f32 ?k) (draws w j)"
    and bia: "\<forall>l \<in> set (dense_layers (model m)). \<forall>v \<in> set (tvals (heap w') (bias l)). v = 0"
    by (elim exE conjE)
  have rng: "- f32 ?k \<le> v \<and> v \<le> f32 ?k"
    if "t \<in> set (concat (all_weights (rnn (model m))))" "v \<in> set (tvals (heap w') t)" for t v
  proof -
    from rec that obtain j where v: "v = uniform_value (f32 (- ?k)) (f32 ?k) (draws w j)" by blast
    have u: "0 \<le> draws w j" "draws w j \<le> 1" using assms(4) by (simp_all add: unit_draws_def)
    show ?thesis unfolding v
      by (rule conjI, rule uniform_value_range(1)[OF u k0], rule uniform_value_range(2)[OF u k0])
  qed
  have re: "reinitialize_model m time w = (Inr (), w')"
    by (simp add: reinitialize_model_def run)
  have "\<forall>t \<in> set (concat (all_weights (rnn (model m)))). \<forall>v \<in> set (tvals (heap w') t).
      - f32 ?k \<le> v \<and> v \<le> f32 ?k"
    using rng by blast
  with re run bia show ?thesis by blast
qed

theorem C4_reinitialize_float32_ranges_witness:
  "0 < hidden_size example_net
   \<and> list_all (\<lambda>l. length (shape (weight l)) = 2) (dense_layers example_net)
   \<and> params_ok (heap ramp_world) example_net
   \<and> unit_draws ramp_world
   \<and> (\<exists>w'. reinitialize_model \<lparr>model = example_net, model_weight = ''dense_layers.1.weight'',
               model_bias = ''dense_layers.1.bias'', model_type = ''rnn''\<rparr> None ramp_world
             = (Inr (), w')
        \<and> initialize_weights example_net ramp_world = (Inr (), w')
        \<and> (\<forall>t \<in> set (concat (all_weights (rnn example_net))). \<forall>v \<in> set (tvals (heap w') t).
              - f32 (f64 (sqrt (f64 (1 / real_of_int (hidden_size example_net))))) \<le> v
              \<and> v \<le> f32 (f64 (sqrt (f64 (1 / real_of_int (hidden_size example_net))))))
        \<and> (\<forall>l \<in> set (dense_layers example_net). \<forall>v \<in> set (tvals (heap w') (bias l)). v = 0))"
proof -
  note p = example_net_params
  have po: "params_ok (heap ramp_world) example_net" using p(1) by (simp add: ramp_world_def)
  have ud: "unit_draws ramp_world"
  proof -
    have "0 \<le> real (k mod 3) / 2 \<and> real (k mod 3) / 2 \<le> 1" for k :: nat
    proof -
      have "k mod 3 < 3" by simp
      then have "k mod 3 \<le> 2" by linarith
      then have "real (k mod 3) \<le> real 2" by (rule of_nat_mono)
      then show ?thesis by simp
    qed
    moreover have "draws ramp_world = (\<lambda>k. real (k mod 3) / 2)" by (simp add: ramp_world_def)
    ultimately show ?thesis by (simp only: unit_draws_def) simp
  qed
  show ?thesis
    using C4_reinitialize_float32_ranges[of "\<lparr>model = example_net, model_weight = ''dense_layers.1.weight'',
               model_bias = ''dense_layers.1.bias'', model_type = ''rnn''\<rparr>" ramp_world None]
      p(3,4) po ud
    by simp
qed

section \<open>The recurrence\<close>

lemma seq_ret_left: "seq (ret v) f = f v"
  by (rule ext) (simp add: seq_def ret_def)

lemma seq_raise_left: "seq (raise e) f = raise e"
  by (rule ext) (simp add: seq_def raise_def)

lemma spec_slice_eq: "spec_slice x t = seq (select_1 x t) unsqueeze_1"
proof (cases "length (shape x) = 3 \<and> length (strides x) = 3 \<and> t < shape x ! 1")
  case False
  then show ?thesis by (auto simp add: spec_slice_def select_1_def seq_raise_left)
next
  case True
  then obtain a b c p q r where s: "shape x = [a, b, c]" "strides x = [p, q, r]"
    by (auto simp: length_Suc_conv numeral_eq_Suc)
  with True show ?thesis
    by (simp add: spec_slice_def select_1_def seq_ret_left unsqueeze_1_def)
qed

text \<open>The body of the source's loop is the step of the specification.\<close>

lemma timestep_spec:
  "timestep self x t state =
     seq (spec_slice x t) (\<lambda>slice. seq (spec_cell self slice state) (spec_dropout_hidden self))"
proof (cases state)
  case (Pair h c)
  have "seq (spec_cell self slice (h, c)) (spec_dropout_hidden self)
      = seq (LSTM_forward (rnn self) slice (h, c)) (\<lambda>(out, h', c').
          seq (Dropout_forward (dropout self) h') (\<lambda>h''. ret (h'', c')))" for slice
    by (simp add: spec_cell_def spec_dropout_hidden_def seq_assoc split_def seq_ret_left)
  then show ?thesis
    by (simp add: Pair timestep_def spec_slice_eq seq_assoc)
qed

lemma for_each_spec_recurrence:
  "for_each [0..<T] (timestep self x) state = spec_recurrence self x T state"
proof (induction T)
  case 0
  then show ?case by simp
next
  case (Suc T)
  have "for_each [0..<Suc T] (timestep self x) state
      = seq (for_each [0..<T] (timestep self x) state) (timestep self x T)"
    by (simp add: for_each_snoc)
  also have "\<dots> = seq (spec_recurrence self x T state) (timestep self x T)"
    by (simp only: Suc)
  also have "\<dots> = spec_recurrence self x (Suc T) state"
    by (simp add: timestep_spec[abs_def])
  finally show ?case .
qed

text \<open>
  Claim C3. A call of \<open>forward\<close> is: the reshape, the zero states, the recurrence of the
  specification over \<open>T\<close> steps, then the augmentation and the dense layers on the final
  hidden state, where \<open>T\<close> is the time dimension of the input whenever the reshape returns.
  That recurrence is exactly \<open>T\<close> steps in the order of the time index, each the cell on
  the slice of its time step and the current (hidden, cell) pair, then dropout on the new
  hidden state only, also after the last step; the source's loop is that recurrence, and the
  body of the loop is its step.
\<close>

theorem C3_recurrence_unrolled:
  "forward self x0 years locations return_last_dense =
     seq (reshape_input x0) (\<lambda>x.
     seq (init_states self x) (\<lambda>state.
     seq (spec_recurrence self x (shape x ! 1) state) (\<lambda>(hidden, cell).
     seq (augment self (squeeze_0 hidden) years locations) (\<lambda>feats.
     seq (dense_stack self return_last_dense feats) (\<lambda>(y, output).
     if return_last_dense then
       (case output of
          None \<Rightarrow> raise UnboundLocalError
        | Some feat \<Rightarrow> ret (OutputAndFeatures y feat))
     else ret (Output y))))))
   \<and> (case reshape_input x0 w of (Inr x, w') \<Rightarrow> shape x ! 1 = shape x0 ! 2 | (Inl e, w') \<Rightarrow> True)
   \<and> recurrence self x state = spec_recurrence self x (shape x ! 1) state
   \<and> timestep self x t state =
       seq (spec_slice x t) (\<lambda>slice. seq (spec_cell self slice state) (spec_dropout_hidden self))"
proof -
  have a: "recurrence self x state = spec_recurrence self x (shape x ! 1) state" for x state
    by (simp add: recurrence_def for_each_spec_recurrence)
  have b: "forward self x0 years locations return_last_dense =
     seq (reshape_input x0) (\<lambda>x.
     seq (init_states self x) (\<lambda>state.
     seq (spec_recurrence self x (shape x ! 1) state) (\<lambda>(hidden, cell).
     seq (augment self (squeeze_0 hidden) years locations) (\<lambda>feats.
     seq (dense_stack self return_last_dense feats) (\<lambda>(y, output).
     if return_last_dense then
       (case output of
          None \<Rightarrow> raise UnboundLocalError
        | Some feat \<Rightarrow> ret (OutputAndFeatures y feat))
     else ret (Output y))))))"
    by (simp add: forward_def features_def recurrent_features_def a seq_assoc split_def seq_ret_left)
  show ?thesis using a b reshape_input_time[of x0 w] timestep_spec by simp
qed

theorem C3_recurrence_unrolled_witness:
  "(\<exists>x w'. reshape_input example_x example_net_world = (Inr x, w')
        \<and> shape x ! 1 = shape example_x ! 2 \<and> shape example_x ! 2 = 3)
   \<and> (\<exists>y w'. forward example_net example_x None None False example_net_world = (Inr (Output y), w')
        \<and> seq (reshape_input example_x) (\<lambda>x.
           seq (init_states example_net x) (\<lambda>state.
           seq (spec_recurrence example_net x (shape x ! 1) state) (\<lambda>(hidden, cell).
           seq (augment example_net (squeeze_0 hidden) None None) (\<lambda>feats.
           seq (dense_stack example_net False feats) (\<lambda>(y, output).
           if False then
             (case output of
                None \<Rightarrow> raise UnboundLocalError
              | Some feat \<Rightarrow> ret (OutputAndFeatures y feat))
           else ret (Output y)))))) example_net_world = (Inr (Output y), w'))"
proof -
  note n = example_net_init and x = example_x_simps
  note c3 = C3_recurrence_unrolled[of example_net example_x None None False example_net_world]
  from returnsD[OF reshape_input_ok[OF x(1,2), of example_net_world]] obtain xr wr where
    r: "reshape_input example_x example_net_world = (Inr xr, wr)" by blast
  from c3 r have t: "shape xr ! 1 = shape example_x ! 2" by simp
  have i: "1 * 1 = lstm_input_size (rnn example_net)" by (simp add: n)
  have d: "CPU = CPU \<or> CPU = CUDA (cuda_current example_net_world)" by simp
  from forward_plain_ok[OF n(2) x(1) x(2) i x(3) d, of None None] n(3) obtain y w' where
    f: "forward example_net example_x None None False example_net_world = (Inr (Output y), w')"
    by auto
  from c3 have e: "forward example_net example_x None None False =
     seq (reshape_input example_x) (\<lambda>x.
           seq (init_states example_net x) (\<lambda>state.
           seq (spec_recurrence example_net x (shape x ! 1) state) (\<lambda>(hidden, cell).
           seq (augment example_net (squeeze_0 hidden) None None) (\<lambda>feats.
           seq (dense_stack example_net False feats) (\<lambda>(y, output).
           if False then
             (case output of
                None \<Rightarrow> raise UnboundLocalError
              | Some feat \<Rightarrow> ret (OutputAndFeatures y feat))
           else ret (Output y))))))"
    by (rule conjunct1)
  have "shape example_x ! 2 = 3" by (simp add: x)
  with r t f e show ?thesis by (metis (no_types, lifting))
qed

section \<open>Year and location augmentation\<close>

text \<open>
  Claim C7. At construction with augmentation enabled, the width list starts with
  \<open>hidden_size + 3\<close> and the first dense layer (when there is one) has that input width. And
  in every call of \<open>forward\<close> on a network with augmentation (its parameters on the device
  \<open>d\<close> of the batch; the constructed network is one, on the CPU) with a valid batch, a year
  per example and a 2-component location per example: the recurrence leaves a tensor \<open>v\<close> of
  shape \<open>[B, hidden_size]\<close>; the augmentation makes of it a tensor \<open>f\<close> of shape
  \<open>[B, hidden_size + 3]\<close> whose row for example \<open>b\<close> is the row of \<open>v\<close>, then the year, then the
  two components of the location, as the caller passed them; and the rest of the call is the
  dense stack on \<open>f\<close>: the call is the loop over the dense layers started on \<open>f\<close>, followed by
  the return statement, and without \<open>return_last_dense\<close> it returns what the dense layers
  in order make of \<open>f\<close>.
\<close>

theorem C7_year_loc_augmentation:
  assumes "0 < hidden_sz" and "0 \<le> in_channels * num_bins"
    and "0 \<le> rnn_dropout" and "rnn_dropout \<le> 1"
    and "list_all (\<lambda>n. 0 \<le> n) (case dense_features of None \<Rightarrow> [256, 1] | Some a \<Rightarrow> pylists w0 a)"
    and "RNNet_init in_channels num_bins hidden_sz 1 rnn_dropout dense_features True w0 = (Inr made, w1)"
    and "net_ok d widths self" and "add_year_loc self"
    and "shape x = [B, C, T, N]" and "length (strides x) = 4"
    and "C * N = lstm_input_size (rnn self)" and "device x = d"
    and "d = CPU \<or> d = CUDA (cuda_current w)"
    and "shape ys = [B]" and "length (strides ys) = 1" and "device ys = d"
    and "storage ys < length (heap w)"
    and "shape locs = [B, 2]" and "device locs = d" and "storage locs < length (heap w)"
  shows "net_ok CPU (map nat ((hidden_sz + 3) #
              (case dense_features of None \<Rightarrow> [256, 1] | Some a \<Rightarrow> pylists w0 a))) made
    \<and> add_year_loc made \<and> hidden_size made = hidden_sz
    \<and> list_all (\<lambda>l. in_features l = nat hidden_sz + 3) (take 1 (dense_layers made))
    \<and> list_all (\<lambda>l. in_features l = lstm_hidden_size (rnn self) + 3) (take 1 (dense_layers self))
    \<and> (\<exists>v wa f wb y wc.
          recurrent_features self x w = (Inr v, wa)
          \<and> shape v = [B, lstm_hidden_size (rnn self)]
          \<and> augment self v (Some ys) (Some locs) wa = (Inr f, wb)
          \<and> shape f = [B, lstm_hidden_size (rnn self) + 3]
          \<and> chunks B (lstm_hidden_size (rnn self) + 3) (tvals (heap wb) f)
              = map (\<lambda>b. chunks B (lstm_hidden_size (rnn self)) (tvals (heap wa) v) ! b
                           @ [tvals (heap w) ys ! b]
                           @ chunks B 2 (tvals (heap w) locs) ! b) [0..<B]
          \<and> forward self x (Some ys) (Some locs) return_last_dense w
              = seq (dense_stack self return_last_dense f) (\<lambda>(y, output).
                  if return_last_dense then
                    (case output of
                       None \<Rightarrow> raise UnboundLocalError
                     | Some feat \<Rightarrow> ret (OutputAndFeatures y feat))
                  else ret (Output y)) wb
          \<and> run_layers (dense_layers self) f wb = (Inr y, wc)
          \<and> forward self x (Some ys) (Some locs) False w = (Inr (Output y), wc))"
proof -
  \<comment> \<open>construction\<close>
  define dfl where "dfl = (case dense_features of None \<Rightarrow> [256, 1] | Some a \<Rightarrow> pylists w0 a)"
  define df where "df = (hidden_sz + (if True then 3 else 0)) # dfl"
  have "returns (RNNet_init in_channels num_bins hidden_sz 1 rnn_dropout dense_features True) w0
     (\<lambda>net w'. net_ok CPU (map nat df) net \<and> add_year_loc net = True
        \<and> length (dense_layers net) = length dfl
        \<and> lstm_input_size (rnn net) = nat (in_channels * num_bins) \<and> hidden_size net = hidden_sz
        \<and> dropout net = \<lparr>drop_p = rnn_dropout, training = True\<rparr>
        \<and> pylists w' = (pylists w0)((case dense_features of None \<Rightarrow> pyfresh w0 | Some a \<Rightarrow> a) := df)
        \<and> pyfresh w' = (case dense_features of None \<Rightarrow> Suc (pyfresh w0) | Some a \<Rightarrow> pyfresh w0)
        \<and> draws w' = draws w0 \<and> cuda_current w' = cuda_current w0
        \<and> length (heap w0) \<le> length (heap w'))"
    by (rule RNNet_init_ok[OF assms(1-4) dfl_def _ refl df_def]) (use assms(5) in \<open>simp add: dfl_def\<close>)
  from returnsD[OF this] assms(6) have
    mnet: "net_ok CPU (map nat df) made" and mayl: "add_year_loc made"
    and mhs: "hidden_size made = hidden_sz"
    by auto
  have mch: "chain_ok (nat (hidden_sz + 3) # map nat dfl) (dense_layers made)"
    using mnet by (auto simp add: net_ok_def df_def)
  have mfirst: "list_all (\<lambda>l. in_features l = nat hidden_sz + 3) (take 1 (dense_layers made))"
  proof (cases "dense_layers made")
    case Nil
    then show ?thesis by simp
  next
    case (Cons l ls)
    with mch assms(1) show ?thesis by (cases dfl) (simp_all add: nat_add_distrib)
  qed
  have c1: "net_ok CPU (map nat ((hidden_sz + 3) #
              (case dense_features of None \<Rightarrow> [256, 1] | Some a \<Rightarrow> pylists w0 a))) made"
    using mnet by (simp add: df_def dfl_def)
  \<comment> \<open>the call\<close>
  define H where "H = lstm_hidden_size (rnn self)"
  note net = assms(7) and ayl = assms(8)
  have "widths \<noteq> [] \<and> hd widths = H + 3"
    using net ayl by (cases widths) (simp_all add: net_ok_def H_def)
  then obtain rest where wd: "widths = (H + 3) # rest"
    by (cases widths) auto
  have "chain_ok widths (dense_layers self)" using net by (simp add: net_ok_def)
  then have ch: "chain_ok ((H + 3) # rest) (dense_layers self)" by (simp only: wd)
  have first: "list_all (\<lambda>l. in_features l = H + 3) (take 1 (dense_layers self))"
  proof (cases "dense_layers self")
    case Nil
    then show ?thesis by simp
  next
    case (Cons l ls)
    with ch show ?thesis by (cases rest) simp_all
  qed
  from returnsD[OF recurrent_features_ok[OF net assms(9-13)]] obtain v wa where
    v: "recurrent_features self x w = (Inr v, wa)" "shape v = [B, H]" "device v = d"
      "preserves w wa"
    by (auto simp: H_def)
  have al: "storage v < length (heap wa)" by (rule recurrent_features_alloc[OF v(1)])
  have le: "length (heap w) \<le> length (heap wa)" using v(4) by (simp add: preserves_def)
  have sy: "storage ys < length (heap wa)" and sl: "storage locs < length (heap wa)"
    using le assms(17,20) by simp_all
  from augment_data[OF ayl v(2,3) al assms(14,15,16) sy assms(18,19) sl]
  obtain f wb where
    f: "augment self v (Some ys) (Some locs) wa = (Inr f, wb)" "shape f = [B, H + 3]"
      "chunks B (H + 3) (tvals (heap wb) f)
        = map (\<lambda>b. chunks B H (tvals (heap wa) v) ! b @ [tvals (heap wa) ys ! b]
                     @ chunks B 2 (tvals (heap wa) locs) ! b) [0..<B]"
    by blast
  have ty: "tvals (heap wa) ys = tvals (heap w) ys"
    by (rule tvals_preserved[OF v(4) assms(17)])
  have tl: "tvals (heap wa) locs = tvals (heap w) locs"
    by (rule tvals_preserved[OF v(4) assms(20)])
  have fe: "features self x (Some ys) (Some locs) w = (Inr f, wb)"
    by (simp add: features_def seq_def v(1) f(1))
  have fw: "forward self x (Some ys) (Some locs) return_last_dense w
      = seq (dense_stack self return_last_dense f) (\<lambda>(y, output).
          if return_last_dense then
            (case output of
               None \<Rightarrow> raise UnboundLocalError
             | Some feat \<Rightarrow> ret (OutputAndFeatures y feat))
          else ret (Output y)) wb"
    by (simp add: forward_def seq_def[of "features self x (Some ys) (Some locs)"] fe)
  have vyl: "valid_year_loc d B (Some ys) (Some locs)"
    by (simp add: valid_year_loc_def assms(14,15,16,18,19))
  from forward_plain_ok[OF net assms(9-13), of "Some ys" "Some locs"] vyl obtain y wc where
    out: "forward self x (Some ys) (Some locs) False w = (Inr (Output y), wc)"
    by auto
  have rl: "run_layers (dense_layers self) f wb = (Inr y, wc)"
    using out by (cases rule: action_cases[of "run_layers (dense_layers self) f" wb])
      (simp_all add: forward_plain_eq fe)
  show ?thesis
    using c1 mayl mhs mfirst first v(1,2) f(1,2) f(3)[unfolded ty tl] fw rl out
    unfolding H_def by blast
qed

theorem C7_year_loc_augmentation_witness:
  "RNNet_init 1 1 2 1 (1 / 4) None True example_world = (Inr example_net_yl, example_net_yl_world)
   \<and> net_ok CPU [5, 256, 1] example_net_yl \<and> add_year_loc example_net_yl
   \<and> hidden_size example_net_yl = 2
   \<and> shape example_x = [1, 1, 3, 1] \<and> length (strides example_x) = 4 \<and> device example_x = CPU
   \<and> 1 * 1 = lstm_input_size (rnn example_net_yl)
   \<and> shape example_years = [1] \<and> length (strides example_years) = 1 \<and> device example_years = CPU
   \<and> storage example_years < length (heap example_net_yl_world)
   \<and> shape example_locations = [1, 2] \<and> device example_locations = CPU
   \<and> storage example_locations < length (heap example_net_yl_world)
   \<and> length (dense_layers example_net_yl) = 2
   \<and> list_all (\<lambda>l. in_features l = 5) (take 1 (dense_layers example_net_yl))
   \<and> (\<exists>v wa f wb y wc.
          recurrent_features example_net_yl example_x example_net_yl_world = (Inr v, wa)
          \<and> shape v = [1, 2]
          \<and> augment example_net_yl v (Some example_years) (Some example_locations) wa = (Inr f, wb)
          \<and> shape f = [1, 5]
          \<and> chunks 1 5 (tvals (heap wb) f)
              = map (\<lambda>b. chunks 1 2 (tvals (heap wa) v) ! b
                           @ [tvals (heap example_net_yl_world) example_years ! b]
                           @ chunks 1 2 (tvals (heap example_net_yl_world) example_locations) ! b) [0..<1]
          \<and> forward example_net_yl example_x (Some example_years) (Some example_locations) True
                example_net_yl_world
              = seq (dense_stack example_net_yl True f) (\<lambda>(y, output).
                  if True then
                    (case output of
                       None \<Rightarrow> raise UnboundLocalError
                     | Some feat \<Rightarrow> ret (OutputAndFeatures y feat))
                  else ret (Output y)) wb
          \<and> run_layers (dense_layers example_net_yl) f wb = (Inr y, wc)
          \<and> forward example_net_yl example_x (Some example_years) (Some example_locations) False
                example_net_yl_world = (Inr (Output y), wc))"
proof -
  note n = example_net_yl_init
  have a: "(0::int) < 2" "(0::int) \<le> 1 * 1" "(0::real) \<le> 1 / 4" "(1::real) / 4 \<le> 1"
    "list_all (\<lambda>n. 0 \<le> n) (case None :: nat option of None \<Rightarrow> [256, 1 :: int] | Some a \<Rightarrow> pylists example_world a)"
    by simp_all
  have "returns (RNNet_init 1 1 2 1 (1 / 4) None True) example_world
     (\<lambda>net w'. net_ok CPU (map nat [5, 256, 1]) net \<and> add_year_loc net = True
        \<and> length (dense_layers net) = length [256, 1 :: int]
        \<and> lstm_input_size (rnn net) = nat (1 * 1) \<and> hidden_size net = 2
        \<and> dropout net = \<lparr>drop_p = 1 / 4, training = True\<rparr>
        \<and> pylists w' = (pylists example_world)(pyfresh example_world := [5, 256, 1])
        \<and> pyfresh w' = (case None :: nat option of None \<Rightarrow> Suc (pyfresh example_world) | Some a \<Rightarrow> pyfresh example_world)
        \<and> draws w' = draws example_world \<and> cuda_current w' = cuda_current example_world
        \<and> length (heap example_world) \<le> length (heap w'))"
    by (rule RNNet_init_ok) simp_all
  from returnsD[OF this] obtain net w' where
    r: "RNNet_init 1 1 2 1 (1 / 4) None True example_world = (Inr net, w')"
    and p: "net_ok CPU [5, 256, 1] net" "add_year_loc net"
      "lstm_input_size (rnn net) = 1" "hidden_size net = 2" "cuda_current w' = 0"
      "length (dense_layers net) = 2"
    by (auto simp: example_world_def)
  have "example_net_yl = net" "example_net_yl_world = w'"
    by (simp_all add: example_net_yl_def example_net_yl_world_def r)
  with p have
    k: "net_ok CPU [5, 256, 1] example_net_yl" "add_year_loc example_net_yl"
      "lstm_input_size (rnn example_net_yl) = 1" "hidden_size example_net_yl = 2"
      "cuda_current example_net_yl_world = 0" "length (dense_layers example_net_yl) = 2"
    by simp_all
  have H: "lstm_hidden_size (rnn example_net_yl) = 2" using k(1,4) by (simp add: net_ok_def)
  have x: "shape example_x = [1, 1, 3, 1]" "length (strides example_x) = 4"
    "1 * 1 = lstm_input_size (rnn example_net_yl)" "device example_x = CPU"
    "CPU = CPU \<or> CPU = CUDA (cuda_current example_net_yl_world)"
    by (simp_all add: example_x_def k(3))
  have y: "shape example_years = [1]" "length (strides example_years) = 1" "device example_years = CPU"
    "storage example_years < length (heap example_net_yl_world)"
    using n(2) by (simp_all add: example_years_def)
  have l: "shape example_locations = [1, 2]" "device example_locations = CPU"
    "storage example_locations < length (heap example_net_yl_world)"
    using n(2) by (simp_all add: example_locations_def)
  from C7_year_loc_augmentation[OF a n(1) k(1,2) x y l, of True]
  show ?thesis using n(1) k(1-4,6) x(1,2,4) y l unfolding H by simp
qed

end
